(* ===== verification/Prelude.thy ===== *)
theory Prelude
  imports Complex_Main "HOL-Library.Word" "HOL-Library.Multiset" "HOL-Library.Monad_Syntax"
begin

text \<open>
  Shared vocabulary of the development: the machine types of the C++ sources
  (\<^verbatim>\<open>uint8_t\<close>, \<^verbatim>\<open>uint16_t\<close>, \<^verbatim>\<open>uint32_t\<close>, \<^verbatim>\<open>uint64_t\<close>), byte strings, the
  rule collections the component proofs use, and generic lemmas on lists and words
  that several components need.
\<close>

unbundle bit_operations_syntax

section \<open>Machine types\<close>

type_synonym u8 = "8 word"
type_synonym u16 = "16 word"
type_synonym u32 = "32 word"
type_synonym u64 = "64 word"

type_synonym bytes = "u8 list"

named_theorems len_simps \<open>lengths of byte strings the operations produce\<close>
named_theorems roundtrip_simps \<open>decode after encode\<close>
named_theorems inv_intros \<open>an operation keeps its component's invariant\<close>

section \<open>Lists\<close>

text \<open>\<open>overwrite i ys xs\<close> is \<^verbatim>\<open>memcpy(xs + i, ys, n)\<close> inside a larger buffer.\<close>

definition overwrite :: "nat \<Rightarrow> 'a list \<Rightarrow> 'a list \<Rightarrow> 'a list" where
  "overwrite i ys xs = take i xs @ ys @ drop (i + length ys) xs"

lemma length_overwrite [simp]:
  "i + length ys \<le> length xs \<Longrightarrow> length (overwrite i ys xs) = length xs"
  by (simp add: overwrite_def)

lemma nth_overwrite:
  "i + length ys \<le> length xs \<Longrightarrow> j < length xs \<Longrightarrow>
   overwrite i ys xs ! j = (if i \<le> j \<and> j < i + length ys then ys ! (j - i) else xs ! j)"
  by (auto simp: overwrite_def nth_append min_def)

lemma take_overwrite [simp]:
  "i \<le> length xs \<Longrightarrow> take i (overwrite i ys xs) = take i xs"
  by (simp add: overwrite_def)

lemma slice_overwrite [simp]:
  "i \<le> length xs \<Longrightarrow> take (length ys) (drop i (overwrite i ys xs)) = ys"
  by (simp add: overwrite_def)

lemma nth_map_upt [simp]: "i < n \<Longrightarrow> map f [0..<n] ! i = f i"
  by simp

lemma list_eq_map_nth: "length xs = n \<Longrightarrow> (\<And>i. i < n \<Longrightarrow> xs ! i = f i) \<Longrightarrow> xs = map f [0..<n]"
  by (rule nth_equalityI) auto

text \<open>Bounded quantifiers over small numbers, for evaluation at concrete inputs.\<close>

lemma all_less_2: "(\<forall>i<2::nat. P i) \<longleftrightarrow> P 0 \<and> P 1"
  by (auto simp: numeral_2_eq_2 less_Suc_eq)

lemma all_less_3: "(\<forall>i<3::nat. P i) \<longleftrightarrow> P 0 \<and> P 1 \<and> P 2"
  by (auto simp: numeral_3_eq_3 numeral_2_eq_2 less_Suc_eq)

text \<open>
  C counting loops \<^verbatim>\<open>for (i = lo; i < hi; i++)\<close> are folds over \<open>[lo..<hi]\<close>. An
  invariant indexed by the loop counter is established by the following rule.
\<close>

lemma fold_upt_invariant:
  assumes "lo \<le> hi" and "P lo s"
    and "\<And>i s. lo \<le> i \<Longrightarrow> i < hi \<Longrightarrow> P i s \<Longrightarrow> P (Suc i) (f i s)"
  shows "P hi (fold f [lo..<hi] s)"
  using assms
proof (induction "hi - lo" arbitrary: lo s)
  case 0
  then show ?case by simp
next
  case (Suc n)
  then have "lo < hi" by simp
  then have "[lo..<hi] = lo # [Suc lo..<hi]" by (simp add: upt_conv_Cons)
  then show ?case using Suc by simp
qed

text \<open>The same for a loop that counts down, \<^verbatim>\<open>for (i = n - 1; i >= 0; i--)\<close>.\<close>

lemma fold_downto_invariant:
  assumes "P n s" and "\<And>i s. i < n \<Longrightarrow> P (Suc i) s \<Longrightarrow> P i (f i s)"
  shows "P 0 (fold f (rev [0..<n]) s)"
  using assms by (induction n arbitrary: s) auto

text \<open>A counting loop whose body may leave with an error (\<^verbatim>\<open>goto fail\<close>, \<^verbatim>\<open>return -1\<close>).\<close>

fun fold_option :: "('a \<Rightarrow> 's \<Rightarrow> 's option) \<Rightarrow> 'a list \<Rightarrow> 's \<Rightarrow> 's option" where
  "fold_option f [] s = Some s"
| "fold_option f (x # xs) s = (case f x s of None \<Rightarrow> None | Some s' \<Rightarrow> fold_option f xs s')"

lemma fold_option_upt_invariant:
  assumes "fold_option f [lo..<hi] s = Some s'" "lo \<le> hi" "P lo s"
    and "\<And>i s s'. lo \<le> i \<Longrightarrow> i < hi \<Longrightarrow> P i s \<Longrightarrow> f i s = Some s' \<Longrightarrow> P (Suc i) s'"
  shows "P hi s'"
  using assms
proof (induction "hi - lo" arbitrary: lo s)
  case (Suc n)
  then have "[lo..<hi] = lo # [Suc lo..<hi]" by (simp add: upt_conv_Cons)
  with Suc.prems obtain t where t: "f lo s = Some t" "fold_option f [Suc lo..<hi] t = Some s'"
    by (auto split: option.splits)
  from Suc.hyps Suc.prems t show ?case by (intro Suc.hyps(1)[of "Suc lo" t]) auto
qed auto

lemma fold_option_upt_total_invariant:
  assumes "lo \<le> hi" "P lo s"
    and "\<And>i s. lo \<le> i \<Longrightarrow> i < hi \<Longrightarrow> P i s \<Longrightarrow> \<exists>s'. f i s = Some s' \<and> P (Suc i) s'"
  shows "\<exists>s'. fold_option f [lo..<hi] s = Some s' \<and> P hi s'"
  using assms
proof (induction "hi - lo" arbitrary: lo s)
  case (Suc n)
  then have e: "[lo..<hi] = lo # [Suc lo..<hi]" by (simp add: upt_conv_Cons)
  obtain t where t: "f lo s = Some t" "P (Suc lo) t" using Suc by (metis le_refl zero_less_Suc zero_less_diff)
  have "\<exists>s'. fold_option f [Suc lo..<hi] t = Some s' \<and> P hi s'"
    using Suc.hyps Suc.prems t by (intro Suc.hyps(1)) auto
  then show ?case using e t by simp
qed auto

lemma fold_option_upt_total:
  assumes "lo \<le> hi" "P lo s"
    and "\<And>i s. lo \<le> i \<Longrightarrow> i < hi \<Longrightarrow> P i s \<Longrightarrow> \<exists>s'. f i s = Some s' \<and> P (Suc i) s'"
  shows "\<exists>s'. fold_option f [lo..<hi] s = Some s'"
  using fold_option_upt_total_invariant[of lo hi P s f, OF assms] by blast

text \<open>\<^verbatim>\<open>assert(b)\<close> in code whose result \<open>None\<close> is an aborted process.\<close>

definition check :: "bool \<Rightarrow> unit option" where
  "check b = (if b then Some () else None)"

lemma check_simps [simp]: "check True = Some ()" "check False = None" "check b = Some u \<longleftrightarrow> b"
  by (simp_all add: check_def)

text \<open>\<^verbatim>\<open>SWAP(xs[i], xs[j], t)\<close>.\<close>

definition swap_nth :: "nat \<Rightarrow> nat \<Rightarrow> 'a list \<Rightarrow> 'a list" where
  "swap_nth i j xs = xs[i := xs ! j, j := xs ! i]"

lemma length_swap_nth [simp]: "length (swap_nth i j xs) = length xs"
  by (simp add: swap_nth_def)

lemma nth_swap_nth: "i < length xs \<Longrightarrow> j < length xs \<Longrightarrow> l < length xs \<Longrightarrow>
  swap_nth i j xs ! l = (if l = i then xs ! j else if l = j then xs ! i else xs ! l)"
  by (auto simp: swap_nth_def nth_list_update)

lemma mset_swap_nth: "i < length xs \<Longrightarrow> j < length xs \<Longrightarrow> mset (swap_nth i j xs) = mset xs"
  unfolding swap_nth_def by (rule mset_swap)

text \<open>Two-dimensional data in one array, row by row: entry \<open>(r, c)\<close> of a matrix with \<open>k\<close> columns
  is element \<open>r * k + c\<close>.\<close>

lemma row_col_inject:
  assumes "c < k" "c' < k"
  shows "r * k + c = r' * k + c' \<longleftrightarrow> r = r' \<and> c = (c' :: nat)"
proof
  assume eq: "r * k + c = r' * k + c'"
  have "(r * k + c) div k = r" "(r' * k + c') div k = r'" using assms by auto
  then show "r = r' \<and> c = c'" using eq by auto
qed auto

lemma row_col_less: "r < n \<Longrightarrow> c < k \<Longrightarrow> r * k + c < n * (k :: nat)"
proof -
  assume "r < n" "c < k"
  then have "r * k + c < Suc r * k" by simp
  also have "\<dots> \<le> n * k" using \<open>r < n\<close> by (intro mult_le_mono1) simp
  finally show ?thesis .
qed

lemma overwrite_row:
  assumes "length m = k * k" "length row = k" "i < k" "r < k" "c < k"
  shows "overwrite (i * k) row m ! (r * k + c) = (if r = i then row ! c else m ! (r * k + c))"
proof -
  have fit: "i * k + length row \<le> length m" using mult_le_mono1[of "Suc i" k k] assms by simp
  have "i * k \<le> r * k + c \<and> r * k + c < i * k + k \<longleftrightarrow> r = i"
  proof
    assume *: "i * k \<le> r * k + c \<and> r * k + c < i * k + k"
    show "r = i"
    proof (rule ccontr)
      assume "r \<noteq> i"
      then have "Suc r \<le> i \<or> Suc i \<le> r" by linarith
      then have "Suc r * k \<le> i * k \<or> Suc i * k \<le> r * k" using mult_le_mono1 by blast
      then show False using * assms(5) by auto
    qed
  qed (use assms in auto)
  then show ?thesis using fit row_col_less[OF assms(4,5)] assms by (auto simp: nth_overwrite)
qed

section \<open>Words\<close>

lemma unat_u8_less [simp]: "unat (x :: u8) < 256"
  using unsigned_less[where 'a = nat, of x] by simp

lemma unat_u16_less [simp]: "unat (x :: u16) < 65536"
  using unsigned_less[where 'a = nat, of x] by simp

lemma unat_u32_less [simp]: "unat (x :: u32) < 4294967296"
  using unsigned_less[where 'a = nat, of x] by simp

lemma unat_inj: "unat x = unat y \<longleftrightarrow> x = (y :: 'a::len word)"
  by (auto intro: unsigned_word_eqI)

lemma xor_twice [simp]: "(x XOR k) XOR k = (x :: 'a::len word)"
  by (simp add: xor.assoc)

lemma xor_swap_cancel: "(x :: 'a::len word) XOR y = z \<longleftrightarrow> x = z XOR y"
  by auto

end
