(* ===== verification/GF256.thy ===== *)
theory GF256
  imports Prelude
begin

text \<open>
  The arithmetic of the Reed-Solomon codec, \<^verbatim>\<open>src/ref/UDPspeeder/lib/fec.cpp\<close>: the
  tables that \<^verbatim>\<open>generate_gf\<close> and \<^verbatim>\<open>init_mul_table\<close> fill, and the proof that table
  look-up multiplication is the multiplication of a field with 256 elements. The field is
  the type \<open>gf256\<close>, a copy of the bytes, so that the library's algebra applies to it.
\<close>

section \<open>Tables\<close>

definition GF_BITS :: nat where
  "GF_BITS = 8"

definition GF_SIZE :: nat where
  "GF_SIZE = 2 ^ GF_BITS - 1"

definition allPp :: "string option list" where
  "allPp = [None, None, Some ''111'', Some ''1101'', Some ''11001'', Some ''101001'',
     Some ''1100001'', Some ''10010001'', Some ''101110001'', Some ''1000100001'',
     Some ''10010000001'', Some ''101000000001'', Some ''1100101000001'',
     Some ''11011000000001'', Some ''110000100010001'', Some ''1100000000000001'',
     Some ''11010000000010001'']"

record gf_tables =
  gf_exp :: "u8 list"
  gf_log :: "nat list"
  gf_inverse :: "u8 list"

text \<open>Static arrays start out as zeros.\<close>

definition gf_tables_static :: gf_tables where
  "gf_tables_static = \<lparr>gf_exp = replicate (2 * GF_SIZE) 0, gf_log = replicate (GF_SIZE + 1) 0,
     gf_inverse = replicate (GF_SIZE + 1) 0\<rparr>"

lemma and_GF_SIZE: "(x :: nat) AND GF_SIZE = x mod 256"
proof -
  have "GF_SIZE = mask 8" by (simp add: GF_SIZE_def GF_BITS_def mask_eq_exp_minus_1)
  show ?thesis unfolding \<open>GF_SIZE = mask 8\<close> by (simp add: take_bit_eq_mask [symmetric] take_bit_eq_mod)
qed

lemma fold_bits_less:
  "GF_SIZE \<le> x \<Longrightarrow> drop_bit GF_BITS (x - GF_SIZE) + ((x - GF_SIZE) AND GF_SIZE) < x"
proof -
  assume x: "GF_SIZE \<le> x"
  have "drop_bit GF_BITS y + (y AND GF_SIZE) \<le> y" for y :: nat
    unfolding and_GF_SIZE by (simp add: GF_BITS_def drop_bit_eq_div)
  from this[of "x - GF_SIZE"] x show ?thesis
    by (simp add: GF_SIZE_def GF_BITS_def)
qed

text \<open>\<^verbatim>\<open>modnn(x)\<close>: the remainder modulo \<open>GF_SIZE\<close> without a division.\<close>

function modnn_loop :: "nat \<Rightarrow> nat" where
  "modnn_loop x = (if x \<ge> GF_SIZE
     then (let x = x - GF_SIZE in modnn_loop (drop_bit GF_BITS x + (x AND GF_SIZE))) else x)"
  by pat_completeness auto
termination
  by (relation "measure id") (auto simp: fold_bits_less Let_def)

declare modnn_loop.simps [simp del]

definition modnn :: "nat \<Rightarrow> u8" where
  "modnn x = word_of_nat (modnn_loop x)"

text \<open>The first loop of \<^verbatim>\<open>generate_gf\<close> (powers below \<open>GF_BITS\<close>), with the running mask.\<close>

definition generate_gf_low :: "string \<Rightarrow> nat \<Rightarrow> u8 \<times> gf_tables \<Rightarrow> u8 \<times> gf_tables" where
  "generate_gf_low Pp i = (\<lambda>(msk, t).
     let e = (gf_exp t)[i := msk];
         l = (gf_log t)[unat (e ! i) := i];
         e = (if Pp ! i = CHR ''1'' then e[GF_BITS := e ! GF_BITS XOR msk] else e)
     in (push_bit 1 msk, t\<lparr>gf_exp := e, gf_log := l\<rparr>))"

text \<open>The second loop: one multiplication by the primitive element per step.\<close>

definition generate_gf_high :: "u8 \<Rightarrow> nat \<Rightarrow> gf_tables \<Rightarrow> gf_tables" where
  "generate_gf_high msk i t =
    (let prev = gf_exp t ! (i - 1);
         e = (gf_exp t)[i := (if prev \<ge> msk
                then gf_exp t ! GF_BITS XOR push_bit 1 (prev XOR msk)
                else push_bit 1 prev)]
     in t\<lparr>gf_exp := e, gf_log := (gf_log t)[unat (e ! i) := i]\<rparr>)"

definition generate_gf :: "gf_tables \<Rightarrow> gf_tables" where
  "generate_gf t0 =
    (let Pp = the (allPp ! GF_BITS);
         t = t0\<lparr>gf_exp := (gf_exp t0)[GF_BITS := 0]\<rparr>;
         t = snd (fold (generate_gf_low Pp) [0..<GF_BITS] (1, t));
         t = t\<lparr>gf_log := (gf_log t)[unat (gf_exp t ! GF_BITS) := GF_BITS]\<rparr>;
         t = fold (generate_gf_high (push_bit (GF_BITS - 1) 1)) [GF_BITS + 1..<GF_SIZE] t;
         t = t\<lparr>gf_log := (gf_log t)[0 := GF_SIZE]\<rparr>;
         t = fold (\<lambda>i t. t\<lparr>gf_exp := (gf_exp t)[i + GF_SIZE := gf_exp t ! i]\<rparr>) [0..<GF_SIZE] t;
         t = t\<lparr>gf_inverse := (gf_inverse t)[0 := 0, 1 := 1]\<rparr>
     in fold (\<lambda>i t. t\<lparr>gf_inverse := (gf_inverse t)[i := gf_exp t ! (GF_SIZE - gf_log t ! i)]\<rparr>)
          [2..<GF_SIZE + 1] t)"

text \<open>The tables after \<^verbatim>\<open>init_fec\<close>.\<close>

definition gf_tab :: gf_tables where
  "gf_tab = generate_gf gf_tables_static"

definition init_mul_table :: "gf_tables \<Rightarrow> u8 list list" where
  "init_mul_table t =
    (let m = map (\<lambda>i. map (\<lambda>j. gf_exp t ! unat (modnn (gf_log t ! i + gf_log t ! j)))
                 [0..<GF_SIZE + 1]) [0..<GF_SIZE + 1]
     in fold (\<lambda>j m. let m = m[j := (m ! j)[0 := 0]] in m[0 := (m ! 0)[j := 0]])
          [0..<GF_SIZE + 1] m)"

definition gf_mul_table :: "u8 list list" where
  "gf_mul_table = init_mul_table gf_tab"

definition gf_mul :: "u8 \<Rightarrow> u8 \<Rightarrow> u8" where
  "gf_mul x y = gf_mul_table ! unat x ! unat y"

definition gf_inv :: "u8 \<Rightarrow> u8" where
  "gf_inv x = gf_inverse gf_tab ! unat x"

lemma GF_consts [simp]: "GF_BITS = 8" "GF_SIZE = 255"
  by (simp_all add: GF_SIZE_def GF_BITS_def)

section \<open>Powers of the primitive element\<close>

text \<open>Multiplication by the primitive element, in polynomial form.\<close>

definition xtime :: "u8 \<Rightarrow> u8" where
  "xtime x = (if x \<ge> 128 then 29 XOR push_bit 1 (x XOR 128) else push_bit 1 x)"

definition apow :: "nat \<Rightarrow> u8" where
  "apow i = (xtime ^^ i) 1"

lemma ge_128_bit: "(128 :: u8) \<le> x \<longleftrightarrow> bit x 7"
proof -
  have "bit x 7 \<longleftrightarrow> bit (unat x) 7" by (simp add: bit_unsigned_iff)
  also have "\<dots> \<longleftrightarrow> odd (unat x div 128)" by (simp add: bit_iff_odd)
  also have "\<dots> \<longleftrightarrow> 128 \<le> unat x"
  proof -
    have "unat x div 128 = (if 128 \<le> unat x then 1 else 0)"
      using unat_u8_less[of x] by (auto; linarith)
    then show ?thesis by simp
  qed
  finally show ?thesis by (simp add: word_le_nat_alt)
qed

lemma xtime_alt: "xtime x = push_bit 1 x XOR (if bit x 7 then 29 else 0)"
proof -
  have "push_bit 1 (x XOR 128) = push_bit 1 x" for x :: u8
  proof -
    have "push_bit 1 (128 :: u8) = 0" by code_simp
    then show ?thesis by (simp only: push_bit_xor xor.right_neutral)
  qed
  then show ?thesis
    by (simp add: xtime_def ge_128_bit xor.commute)
qed

lemma xtime_xor: "xtime (x XOR y) = xtime x XOR xtime y"
  by (auto simp: xtime_alt bit_xor_iff ac_simps)

lemma xtime_0 [simp]: "xtime 0 = 0"
  by (simp add: xtime_def)

lemma xtime_pow_xor: "(xtime ^^ n) (x XOR y) = (xtime ^^ n) x XOR (xtime ^^ n) y"
  by (induction n) (simp_all add: xtime_xor)

lemma xtime_pow_0 [simp]: "(xtime ^^ n) 0 = 0"
  by (induction n) simp_all

text \<open>The orbit of 1, computed once: it returns to 1 after exactly 255 steps.\<close>

fun xtime_orbit :: "nat \<Rightarrow> u8 \<Rightarrow> u8 list" where
  "xtime_orbit 0 x = []"
| "xtime_orbit (Suc n) x = x # xtime_orbit n (xtime x)"

lemma xtime_orbit_nth: "i < n \<Longrightarrow> xtime_orbit n x ! i = (xtime ^^ i) x"
proof (induction n arbitrary: x i)
  case (Suc n)
  then show ?case by (cases i) (simp_all add: funpow_swap1)
qed simp

lemma length_xtime_orbit [simp]: "length (xtime_orbit n x) = n"
  by (induction n arbitrary: x) auto

lemma xtime_orbit_1:
  "list_all (\<lambda>x. uint x \<noteq> 1) (butlast (tl (xtime_orbit 256 1))) \<and> last (xtime_orbit 256 1) = 1"
  by code_simp

lemma apow_255 [simp]: "apow 255 = 1"
proof -
  have "xtime_orbit 256 1 \<noteq> []" by (metis length_xtime_orbit list.size(3) zero_neq_numeral)
  then have "xtime_orbit 256 1 ! 255 = 1"
    using xtime_orbit_1 by (simp add: last_conv_nth)
  then show ?thesis using xtime_orbit_nth[of 255 256 1] by (simp add: apow_def)
qed

lemma apow_neq_1: "0 < i \<Longrightarrow> i < 255 \<Longrightarrow> apow i \<noteq> 1"
proof
  assume i: "0 < i" "i < 255" and "apow i = 1"
  then have "uint (xtime_orbit 256 1 ! i) = 1" by (simp add: xtime_orbit_nth apow_def)
  moreover have "butlast (tl (xtime_orbit 256 1)) ! (i - 1) = xtime_orbit 256 1 ! i"
    using i by (simp add: nth_butlast nth_tl)
  ultimately show False
    using xtime_orbit_1 i by (auto simp: list_all_length dest: spec[of _ "i - 1"])
qed

lemma apow_add: "apow (i + j) = (xtime ^^ i) (apow j)"
  by (simp add: apow_def funpow_add)

lemma apow_Suc: "apow (Suc i) = xtime (apow i)"
  by (simp add: apow_def)

lemma apow_0 [simp]: "apow 0 = 1"
  by (simp add: apow_def)

lemma apow_add_255: "apow (i + 255) = apow i"
  by (simp add: apow_add) (simp add: apow_def)

lemma apow_mod: "apow (i mod 255) = apow i"
proof -
  have "apow (j + 255 * n) = apow j" for j n
  proof (induction n)
    case (Suc n)
    have "apow (j + 255 * Suc n) = apow ((j + 255 * n) + 255)" by (simp add: algebra_simps)
    then show ?case using Suc by (simp only: apow_add_255)
  qed simp
  from this[of "i mod 255" "i div 255"] show ?thesis by simp
qed

lemma apow_nonzero [simp]: "apow i \<noteq> 0"
proof
  assume "apow i = 0"
  then have "apow (i mod 255) = 0" by (simp add: apow_mod)
  then have "apow ((255 - i mod 255) + i mod 255) = 0" by (simp only: apow_add xtime_pow_0)
  moreover have "(255 - i mod 255) + i mod 255 = 255"
    using mod_less_divisor[of 255 i] by simp
  ultimately have "apow 255 = 0" by simp
  then show False by (simp only: apow_255) simp
qed

lemma apow_less_neq:
  assumes lt: "i < j" "j < 255"
  shows "apow i \<noteq> apow j"
proof
  assume eq: "apow i = apow j"
  define m where "m = 255 - j"
  have m: "m + j = 255" "0 < m" using lt by (auto simp: m_def)
  have "apow (m + i) = apow (m + j)" unfolding apow_add eq ..
  then have "apow (m + i) = 1" unfolding m(1) apow_255 .
  moreover have "0 < m + i" "m + i < 255" using lt m by linarith+
  ultimately show False using apow_neq_1[of "m + i"] by simp
qed

lemma apow_inj: "i < 255 \<Longrightarrow> j < 255 \<Longrightarrow> apow i = apow j \<Longrightarrow> i = j"
  by (metis apow_less_neq nat_neq_iff)

lemma apow_surj: "x \<noteq> 0 \<Longrightarrow> \<exists>i < 255. x = apow i"
proof -
  assume x: "x \<noteq> 0"
  have "card (apow ` {..<255}) = 255"
    by (subst card_image) (auto intro: inj_onI apow_inj)
  moreover have "card (UNIV - {0 :: u8}) = 255"
    by (simp add: card_Diff_singleton card_word)
  moreover have "apow ` {..<255} \<subseteq> UNIV - {0}" by auto
  ultimately have "apow ` {..<255} = UNIV - {0}"
    by (intro card_subset_eq) auto
  then have "x \<in> apow ` {..<255}" using x by simp
  then show ?thesis by auto
qed

section \<open>What \<^verbatim>\<open>generate_gf\<close> computes\<close>

lemma modnn_loop_eq: "modnn_loop x = x mod 255"
proof (induction x rule: modnn_loop.induct)
  case (1 x)
  show ?case
  proof (cases "x \<ge> 255")
    case True
    let ?y = "x - 255"
    have fold: "drop_bit 8 y + (y AND 255) = y div 256 + y mod 256" for y :: nat
      using and_GF_SIZE[of y] by (simp add: drop_bit_eq_div)
    have "modnn_loop x = (?y div 256 + ?y mod 256) mod 255"
      using True 1 by (subst modnn_loop.simps) (simp add: fold Let_def)
    also have "\<dots> = (256 * (?y div 256) + ?y mod 256) mod 255"
    proof -
      have "(q + r + q * 255) mod 255 = (q + r) mod 255" for q r :: nat by (rule mod_mult_self1)
      from this[of "?y div 256" "?y mod 256"] show ?thesis by (simp add: algebra_simps)
    qed
    also have "\<dots> = ?y mod 255" by simp
    also have "\<dots> = x mod 255" using True by (simp add: le_mod_geq)
    finally show ?thesis .
  next
    case False
    then show ?thesis by (subst modnn_loop.simps) simp
  qed
qed

lemma unat_modnn [simp]: "unat (modnn x) = x mod 255"
proof -
  have "x mod 255 < 256" using mod_less_divisor[of 255 x] by simp
  then show ?thesis by (simp add: modnn_def modnn_loop_eq unat_of_nat)
qed

definition gf_wf :: "gf_tables \<Rightarrow> bool" where
  "gf_wf t \<longleftrightarrow> length (gf_exp t) = 510 \<and> length (gf_log t) = 256 \<and> length (gf_inverse t) = 256"

text \<open>The tables hold the first \<open>n\<close> powers and their logarithms.\<close>

definition gf_filled :: "nat \<Rightarrow> gf_tables \<Rightarrow> bool" where
  "gf_filled n t \<longleftrightarrow> gf_wf t \<and> (\<forall>j < n. gf_exp t ! j = apow j) \<and> (\<forall>j < n. gf_log t ! unat (apow j) = j)"

lemma small_apow:
  "apow 1 = 2" "apow 2 = 4" "apow 3 = 8" "apow 4 = 16" "apow 5 = 32" "apow 6 = 64" "apow 7 = 128"
  "apow 8 = 29"
  by code_simp+

lemma upt_0_8: "[0..<8] = [0, 1, 2, 3, 4, 5, 6, 7]"
  by code_simp

lemma less_9_cases: "(j :: nat) < 9 \<Longrightarrow> j = 0 \<or> j = 1 \<or> j = 2 \<or> j = 3 \<or> j = 4 \<or> j = 5 \<or> j = 6 \<or> j = 7 \<or> j = 8"
  by auto

lemma generate_gf_low_filled:
  assumes "gf_wf t" "gf_exp t ! 8 = 0"
  defines "t' \<equiv> snd (fold (generate_gf_low ''101110001'') [0..<8] (1, t))"
  shows "gf_filled 9 (t'\<lparr>gf_log := (gf_log t')[unat (gf_exp t' ! 8) := 8]\<rparr>)"
proof -
  have t': "t' = t\<lparr>gf_exp := (gf_exp t)[0 := 1, 8 := 1, 1 := 2, 2 := 4, 8 := 5, 3 := 8, 8 := 13,
        4 := 16, 8 := 29, 5 := 32, 6 := 64, 7 := 128],
      gf_log := (gf_log t)[1 := 0, 2 := 1, 4 := 2, 8 := 3, 16 := 4, 32 := 5, 64 := 6, 128 := 7]\<rparr>"
    using assms(1,2) by (simp add: t'_def upt_0_8 generate_gf_low_def gf_wf_def)
  show ?thesis
    using assms(1) unfolding t' gf_filled_def gf_wf_def
    by (auto dest!: less_9_cases simp: small_apow small_apow(1)[unfolded One_nat_def])
qed

lemma generate_gf_high_filled:
  assumes "9 \<le> i" "i < 255" "gf_filled i t"
  shows "gf_filled (Suc i) (generate_gf_high 128 i t)"
proof -
  have e8: "gf_exp t ! 8 = 29" and prev: "gf_exp t ! (i - 1) = apow (i - 1)" and wf: "gf_wf t"
    using assms by (auto simp: gf_filled_def small_apow)
  have next_pow: "(if 128 \<le> apow (i - 1) then 29 XOR push_bit 1 (apow (i - 1) XOR 128)
      else push_bit 1 (apow (i - 1))) = apow i"
    using assms(1) apow_Suc[of "i - 1"] by (simp add: xtime_def)
  have "generate_gf_high 128 i t =
      t\<lparr>gf_exp := (gf_exp t)[i := apow i], gf_log := (gf_log t)[unat (apow i) := i]\<rparr>"
    unfolding generate_gf_high_def Let_def GF_consts e8 prev next_pow
    using wf assms(2) by (simp add: gf_wf_def)
  moreover have "gf_filled (Suc i) (t\<lparr>gf_exp := (gf_exp t)[i := apow i],
      gf_log := (gf_log t)[unat (apow i) := i]\<rparr>)"
    using assms by (auto simp: gf_filled_def gf_wf_def nth_list_update less_Suc_eq unat_inj
        apow_less_neq apow_less_neq[symmetric])
  ultimately show ?thesis by simp
qed

text \<open>The whole procedure, phase by phase.\<close>

definition gf_phase1 :: gf_tables where
  "gf_phase1 = (let t = gf_tables_static;
      t = snd (fold (generate_gf_low ''101110001'') [0..<8] (1, t\<lparr>gf_exp := (gf_exp t)[8 := 0]\<rparr>))
    in fold (generate_gf_high 128) [9..<255] (t\<lparr>gf_log := (gf_log t)[unat (gf_exp t ! 8) := 8]\<rparr>))"

lemma gf_phase1_filled: "gf_filled 255 gf_phase1"
  unfolding gf_phase1_def Let_def
  by (rule fold_upt_invariant [where P = gf_filled])
    (auto intro!: generate_gf_low_filled generate_gf_high_filled
      simp: gf_wf_def gf_tables_static_def)

lemma gf_tab_phases:
  "gf_tab =
    (let t = gf_phase1\<lparr>gf_log := (gf_log gf_phase1)[0 := 255]\<rparr>;
         t = fold (\<lambda>i t. t\<lparr>gf_exp := (gf_exp t)[i + 255 := gf_exp t ! i]\<rparr>) [0..<255] t;
         t = t\<lparr>gf_inverse := (gf_inverse t)[0 := 0, 1 := 1]\<rparr>
     in fold (\<lambda>i t. t\<lparr>gf_inverse := (gf_inverse t)[i := gf_exp t ! (255 - gf_log t ! i)]\<rparr>) [2..<256] t)"
proof -
  have "push_bit 7 (1 :: u8) = 128" by code_simp
  moreover have "the (allPp ! 8) = ''101110001''" by (simp add: allPp_def)
  moreover have "8 - 1 = (7 :: nat)" "8 + 1 = (9 :: nat)" "255 + 1 = (256 :: nat)" by simp_all
  ultimately show ?thesis
    unfolding gf_tab_def generate_gf_def gf_phase1_def Let_def GF_consts by (simp only:)
qed

definition gf_doubled :: "nat \<Rightarrow> gf_tables \<Rightarrow> bool" where
  "gf_doubled n t \<longleftrightarrow> gf_filled 255 t \<and> gf_log t ! 0 = 255 \<and> (\<forall>j < n. gf_exp t ! (j + 255) = apow j)"

lemma gf_doubled_step:
  assumes "i < 255" "gf_doubled i t"
  shows "gf_doubled (Suc i) (t\<lparr>gf_exp := (gf_exp t)[i + 255 := gf_exp t ! i]\<rparr>)"
  using assms by (auto simp: gf_doubled_def gf_filled_def gf_wf_def nth_list_update less_Suc_eq)

definition gf_inverted :: "nat \<Rightarrow> gf_tables \<Rightarrow> bool" where
  "gf_inverted n t \<longleftrightarrow> gf_doubled 255 t \<and> gf_inverse t ! 0 = 0 \<and> gf_inverse t ! 1 = 1 \<and>
     (\<forall>j. 2 \<le> j \<and> j < n \<longrightarrow> gf_inverse t ! j = apow (255 - gf_log t ! j))"

lemma gf_log_range:
  assumes "gf_filled 255 t" "x \<noteq> 0"
  shows "gf_log t ! unat x < 255 \<and> apow (gf_log t ! unat x) = x"
  using assms(1) apow_surj[OF assms(2)] by (auto simp: gf_filled_def)

lemma gf_inverted_step:
  assumes "2 \<le> i" "i < 256" "gf_inverted i t"
  shows "gf_inverted (Suc i)
    (t\<lparr>gf_inverse := (gf_inverse t)[i := gf_exp t ! (255 - gf_log t ! i)]\<rparr>)"
proof -
  define x :: u8 where "x = word_of_nat i"
  have ux: "unat x = i" using assms(2) by (simp add: x_def unat_of_nat)
  then have "x \<noteq> 0" using assms(1) by auto
  with assms(3) have lg: "gf_log t ! i < 255"
    using gf_log_range[of t x] by (simp add: ux gf_inverted_def gf_doubled_def)
  have "gf_exp t ! (255 - gf_log t ! i) = apow (255 - gf_log t ! i)"
  proof (cases "gf_log t ! i = 0")
    case True
    have "gf_exp t ! (0 + 255) = apow 0"
      using assms(3) unfolding gf_inverted_def gf_doubled_def by (elim conjE allE[of _ 0]) simp
    then show ?thesis using True by simp
  next
    case False
    then show ?thesis using assms(3) lg by (simp add: gf_inverted_def gf_doubled_def gf_filled_def)
  qed
  then show ?thesis
    using assms by (auto simp: gf_inverted_def gf_doubled_def gf_filled_def gf_wf_def
        nth_list_update less_Suc_eq)
qed

lemma gf_tab_inverted: "gf_inverted 256 gf_tab"
proof -
  let ?t = "gf_phase1\<lparr>gf_log := (gf_log gf_phase1)[0 := 255]\<rparr>"
  let ?d = "fold (\<lambda>i t. t\<lparr>gf_exp := (gf_exp t)[i + 255 := gf_exp t ! i]\<rparr>) [0..<255] ?t"
  have "gf_doubled 0 ?t"
    using gf_phase1_filled
    by (auto simp: gf_doubled_def gf_filled_def gf_wf_def nth_list_update unat_eq_0)
  then have d: "gf_doubled 255 ?d"
    by (intro fold_upt_invariant [where P = gf_doubled]) (auto intro: gf_doubled_step)
  then have "gf_inverted 2 (?d\<lparr>gf_inverse := (gf_inverse ?d)[0 := 0, 1 := 1]\<rparr>)"
    by (auto simp: gf_inverted_def gf_doubled_def gf_filled_def gf_wf_def)
  then show ?thesis
    unfolding gf_tab_phases Let_def
    by (intro fold_upt_invariant [where P = gf_inverted]) (auto intro: gf_inverted_step)
qed

lemma gf_tab_exp: "i < 510 \<Longrightarrow> gf_exp gf_tab ! i = apow i"
proof -
  assume i: "i < 510"
  have ex: "\<forall>j < 255. gf_exp gf_tab ! j = apow j" "\<forall>j < 255. gf_exp gf_tab ! (j + 255) = apow j"
    using gf_tab_inverted by (simp_all add: gf_inverted_def gf_doubled_def gf_filled_def)
  show ?thesis
  proof (cases "i < 255")
    case False
    then have "gf_exp gf_tab ! ((i - 255) + 255) = apow (i - 255)"
      using ex(2)[rule_format, of "i - 255"] i by linarith
    also have "\<dots> = apow ((i - 255) + 255)" by (simp only: apow_add_255)
    finally show ?thesis using False by simp
  qed (use ex in simp)
qed

lemma gf_tab_log: "i < 255 \<Longrightarrow> gf_log gf_tab ! unat (apow i) = i"
  using gf_tab_inverted by (simp add: gf_inverted_def gf_doubled_def gf_filled_def)

lemma gf_tab_log_0: "gf_log gf_tab ! 0 = 255"
  using gf_tab_inverted by (simp add: gf_inverted_def gf_doubled_def)

lemma gf_mul_table_nth:
  "i < 256 \<Longrightarrow> j < 256 \<Longrightarrow> gf_mul_table ! i ! j =
   (if i = 0 \<or> j = 0 then 0 else gf_exp gf_tab ! ((gf_log gf_tab ! i + gf_log gf_tab ! j) mod 255))"
proof -
  assume i: "i < 256" and j: "j < 256"
  let ?m = "map (\<lambda>i. map (\<lambda>j. gf_exp gf_tab ! unat (modnn (gf_log gf_tab ! i + gf_log gf_tab ! j)))
                 [0..<256]) [0..<256]"
  let ?f = "\<lambda>j m. let m = m[j := (m ! j)[0 := 0 :: u8]] in m[0 := (m ! 0)[j := 0]]"
  define P where "P n m \<longleftrightarrow> length m = 256 \<and> (\<forall>i < 256. length (m ! i) = 256) \<and>
    (\<forall>i < 256. \<forall>j < 256. m ! i ! j = (if i = 0 \<and> j < n \<or> j = 0 \<and> i < n then 0 else ?m ! i ! j))"
    for n :: nat and m :: "u8 list list"
  have "P 256 (fold ?f [0..<256] ?m)"
  proof (rule fold_upt_invariant [where P = P])
    show "P 0 ?m" by (simp add: P_def)
    fix n m
    assume "n < 256" "P n m"
    then show "P (Suc n) (?f n m)"
      unfolding P_def Let_def by (auto simp: nth_list_update less_Suc_eq simp del: nth_map_upt)
  qed simp
  moreover have "gf_mul_table = fold ?f [0..<256] ?m"
    unfolding gf_mul_table_def init_mul_table_def GF_consts by (simp add: Let_def)
  ultimately show ?thesis using i j by (auto simp: P_def)
qed

lemma gf_mul_0 [simp]: "gf_mul 0 y = 0" "gf_mul x 0 = 0"
  by (simp_all add: gf_mul_def gf_mul_table_nth)

lemma gf_mul_apow: "gf_mul (apow i) (apow j) = apow (i + j)"
proof -
  have lg: "gf_log gf_tab ! unat (apow n) = n mod 255" for n
    using gf_tab_log[of "n mod 255"] by (simp add: apow_mod)
  have nz: "unat (apow n) \<noteq> 0" for n by (simp add: unat_eq_0)
  have "(i mod 255 + j mod 255) mod 255 < 510"
    using mod_less_divisor[of 255 "i mod 255 + j mod 255"] by linarith
  then have "gf_mul (apow i) (apow j) = apow ((i mod 255 + j mod 255) mod 255)"
    using nz by (simp add: gf_mul_def gf_mul_table_nth lg gf_tab_exp)
  then show ?thesis by (simp add: apow_mod mod_add_eq)
qed

lemma gf_inv_apow: "i < 255 \<Longrightarrow> gf_inv (apow i) = apow (255 - i)"
proof -
  assume i: "i < 255"
  have inv: "gf_inverse gf_tab ! 1 = 1"
    "\<And>j. 2 \<le> j \<Longrightarrow> j < 256 \<Longrightarrow> gf_inverse gf_tab ! j = apow (255 - gf_log gf_tab ! j)"
    using gf_tab_inverted by (auto simp: gf_inverted_def)
  show ?thesis
  proof (cases "i = 0")
    case True
    then show ?thesis using inv(1) by (simp add: gf_inv_def)
  next
    case False
    then have "apow i \<noteq> 1" using apow_neq_1 i by simp
    then have "unat (apow i) \<noteq> 1" using unat_inj[of "apow i" 1] by simp
    moreover have "unat (apow i) \<noteq> 0" by (simp add: unat_eq_0)
    ultimately have "2 \<le> unat (apow i)" by linarith
    then show ?thesis using inv(2)[of "unat (apow i)"] i by (simp add: gf_inv_def gf_tab_log)
  qed
qed

lemma gf_inv_0 [simp]: "gf_inv 0 = 0"
  using gf_tab_inverted by (simp add: gf_inv_def gf_inverted_def)

section \<open>The field laws\<close>

lemma gf_cases:
  obtains "x = 0" | i where "i < 255" "x = apow i"
  using apow_surj by blast

lemma gf_mul_assoc: "gf_mul (gf_mul x y) z = gf_mul x (gf_mul y z)"
  by (cases x rule: gf_cases; cases y rule: gf_cases; cases z rule: gf_cases)
    (simp_all add: gf_mul_apow add.assoc)

lemma gf_mul_commute: "gf_mul x y = gf_mul y x"
  by (cases x rule: gf_cases; cases y rule: gf_cases) (simp_all add: gf_mul_apow add.commute)

lemma gf_mul_1 [simp]: "gf_mul 1 x = x"
  using gf_mul_apow[of 0] by (cases x rule: gf_cases) simp_all

text \<open>Multiplication by a power of the primitive element is an iterate of the linear map \<open>xtime\<close>.\<close>

lemma gf_mul_xtime: "gf_mul (apow i) y = (xtime ^^ i) y"
  by (cases y rule: gf_cases) (simp_all add: gf_mul_apow apow_add)

lemma gf_mul_xor: "gf_mul x (y XOR z) = gf_mul x y XOR gf_mul x z"
  by (cases x rule: gf_cases) (simp_all add: gf_mul_xtime xtime_pow_xor)

lemma gf_mul_inv: "x \<noteq> 0 \<Longrightarrow> gf_mul (gf_inv x) x = 1"
proof (cases x rule: gf_cases)
  case (2 i)
  then have "255 - i + i = 255" by simp
  then show ?thesis using 2 by (simp only: gf_inv_apow gf_mul_apow apow_255)
qed simp

typedef gf256 = "UNIV :: u8 set"
  morphisms gf_byte GF by simp

setup_lifting type_definition_gf256

instantiation gf256 :: field
begin

lift_definition zero_gf256 :: gf256 is 0 .
lift_definition one_gf256 :: gf256 is 1 .
lift_definition plus_gf256 :: "gf256 \<Rightarrow> gf256 \<Rightarrow> gf256" is "(XOR)" .
lift_definition minus_gf256 :: "gf256 \<Rightarrow> gf256 \<Rightarrow> gf256" is "(XOR)" .
lift_definition uminus_gf256 :: "gf256 \<Rightarrow> gf256" is "\<lambda>x. x" .
lift_definition times_gf256 :: "gf256 \<Rightarrow> gf256 \<Rightarrow> gf256" is gf_mul .
lift_definition inverse_gf256 :: "gf256 \<Rightarrow> gf256" is gf_inv .

definition divide_gf256 :: "gf256 \<Rightarrow> gf256 \<Rightarrow> gf256" where
  "divide_gf256 x y = x * inverse y"

instance
proof
  fix a b c :: gf256
  show "a * b * c = a * (b * c)" by transfer (rule gf_mul_assoc)
  show "a * b = b * a" by transfer (rule gf_mul_commute)
  show "1 * a = a" by transfer simp
  show "a + b + c = a + (b + c)" by transfer (rule xor.assoc)
  show "a + b = b + a" by transfer (rule xor.commute)
  show "0 + a = a" by transfer simp
  show "- a + a = 0" by transfer simp
  show "a - b = a + - b" by transfer simp
  show "(a + b) * c = a * c + b * c"
    by transfer (simp add: gf_mul_commute[of _ c for c] gf_mul_xor)
  show "(0 :: gf256) \<noteq> 1" by transfer simp
  show "a \<noteq> 0 \<Longrightarrow> inverse a * a = 1" by transfer (rule gf_mul_inv)
  show "a div b = a * inverse b" by (rule divide_gf256_def)
  show "inverse (0 :: gf256) = 0" by transfer simp
qed

end

instance gf256 :: finite
proof
  have "inj gf_byte" by (simp add: inj_def gf_byte_inject)
  then show "finite (UNIV :: gf256 set)"
    using finite_imageD[of gf_byte UNIV] by (simp add: finite_subset[of _ "UNIV :: u8 set"])
qed

lemma gf_char2 [simp]: "(x :: gf256) + x = 0" "- x = x" "x + (x + y) = y"
  by (transfer; simp add: xor.assoc [symmetric])+

lemma GF_hom [simp]:
  "GF 0 = 0" "GF 1 = 1" "GF (x XOR y) = GF x + GF y" "GF (gf_mul x y) = GF x * GF y"
  "GF (gf_inv x) = inverse (GF x)"
  by (transfer; simp)+

lemma GF_inject' [simp]: "GF x = GF y \<longleftrightarrow> x = y"
  by (simp add: GF_inject)

lemma GF_eq_0 [simp]: "GF x = 0 \<longleftrightarrow> x = 0" and GF_eq_1 [simp]: "GF x = 1 \<longleftrightarrow> x = 1"
  using GF_inject'[of x 0] GF_inject'[of x 1] by simp_all

section \<open>Multiplication of polynomials\<close>

text \<open>The reference: shift and add over the bits of \<open>y\<close>, modulo \<open>x^8 + x^4 + x^3 + x^2 + 1\<close>.\<close>

definition gf_poly_mul :: "u8 \<Rightarrow> u8 \<Rightarrow> u8" where
  "gf_poly_mul x y = fold (\<lambda>i acc. if bit y i then acc XOR (xtime ^^ i) x else acc) [0..<8] 0"

lemma byte_split: "y = fold (\<lambda>i acc. if bit y i then acc XOR apow i else acc) [0..<8] (0 :: u8)"
proof -
  have "fold (\<lambda>i acc. if bit y i then acc XOR apow i else acc) [0..<8] (0 :: u8) = fold (\<lambda>i acc. if bit y i then acc XOR 2 ^ i else acc) [0..<8] 0"
    using small_apow by (simp add: upt_0_8)
  also have "\<dots> = take_bit 8 y"
  proof -
    have "fold (\<lambda>i acc. if bit y i then acc XOR 2 ^ i else acc) [0..<n] 0 = take_bit n y" for n
    proof (induction n)
      case (Suc n)
      have "take_bit (Suc n) y = take_bit n y XOR (if bit y n then 2 ^ n else 0)"
        by (rule bit_eqI) (auto simp: bit_simps less_Suc_eq)
      then show ?case using Suc by simp
    qed simp
    then show ?thesis .
  qed
  finally show ?thesis by (simp add: take_bit_word_eq_self)
qed

lemma gf_poly_mul_fold: "gf_mul x (fold (\<lambda>i acc. if bit y i then acc XOR apow i else acc) is a) =
    fold (\<lambda>i acc. if bit y i then acc XOR (xtime ^^ i) x else acc) is (gf_mul x a)"
proof (induction "is" arbitrary: a)
  case (Cons i "is")
  have "gf_mul x (apow i) = (xtime ^^ i) x" using gf_mul_xtime[of i x] by (simp add: gf_mul_commute)
  then show ?case using Cons by (simp add: gf_mul_xor)
qed simp

end
