(* ===== verification/Linear.thy ===== *)
theory Linear
  imports Prelude "HOL-Library.FuncSet"
begin

text \<open>
  The linear algebra the correctness of the codec rests on, over any field: matrices are
  functions of a row and a column index, of which only the first \<open>k\<close> columns count. The exchange
  step \<open>sweep\<close> is what one round of the in-place Gauss-Jordan elimination does; Vandermonde
  systems have exactly one solution.
\<close>

section \<open>Matrix times vector\<close>

definition lin :: "nat \<Rightarrow> (nat \<Rightarrow> nat \<Rightarrow> 'a::field) \<Rightarrow> (nat \<Rightarrow> 'a) \<Rightarrow> nat \<Rightarrow> 'a" where
  "lin k A x i = (\<Sum>j<k. A i j * x j)"

definition lin_onto :: "nat \<Rightarrow> (nat \<Rightarrow> nat \<Rightarrow> 'a::field) \<Rightarrow> bool" where
  "lin_onto k A \<longleftrightarrow> (\<forall>y. \<exists>x. \<forall>i<k. lin k A x i = y i)"

definition lin_inj :: "nat \<Rightarrow> (nat \<Rightarrow> nat \<Rightarrow> 'a::field) \<Rightarrow> bool" where
  "lin_inj k A \<longleftrightarrow> (\<forall>x. (\<forall>i<k. lin k A x i = 0) \<longrightarrow> (\<forall>i<k. x i = 0))"

lemma lin_cong: "(\<And>j. j < k \<Longrightarrow> A i j = B i j) \<Longrightarrow> (\<And>j. j < k \<Longrightarrow> x j = y j) \<Longrightarrow> lin k A x i = lin k B y i"
  by (simp add: lin_def)

lemma lin_diff: "lin k A (\<lambda>j. x j - y j) i = lin k A x i - lin k A y i"
  by (simp add: lin_def algebra_simps sum_subtractf)

lemma lin_unit_row: "i < k \<Longrightarrow> (\<And>j. j < k \<Longrightarrow> A i j = (if j = l then 1 else 0)) \<Longrightarrow> l < k \<Longrightarrow> lin k A x i = x l"
  by (simp add: lin_def if_distrib[of "\<lambda>t. t * _"] cong: if_cong)

lemma lin_lin: "lin k A (lin k B x) i = lin k (\<lambda>i j. \<Sum>l<k. A i l * B l j) x i"
proof -
  have "lin k A (lin k B x) i = (\<Sum>l<k. \<Sum>j<k. A i l * (B l j * x j))"
    by (simp add: lin_def sum_distrib_left)
  also have "\<dots> = (\<Sum>j<k. \<Sum>l<k. A i l * (B l j * x j))" by (rule sum.swap)
  also have "\<dots> = lin k (\<lambda>i j. \<Sum>l<k. A i l * B l j) x i"
    by (simp add: lin_def sum_distrib_right mult.assoc)
  finally show ?thesis .
qed

text \<open>Over a finite field an injective square matrix is onto.\<close>

lemma lin_inj_onto:
  fixes A :: "nat \<Rightarrow> nat \<Rightarrow> 'a::{field,finite}"
  assumes "lin_inj k A"
  shows "lin_onto k A"
proof -
  let ?V = "{..<k} \<rightarrow>\<^sub>E (UNIV :: 'a set)"
  let ?f = "\<lambda>x. restrict (lin k A x) {..<k}"
  have "inj_on ?f ?V"
  proof (rule inj_onI)
    fix x y assume x: "x \<in> ?V" and y: "y \<in> ?V" and eq: "?f x = ?f y"
    have "lin k A (\<lambda>j. x j - y j) i = 0" if "i < k" for i
      using fun_cong[OF eq, of i] that by (simp add: lin_diff)
    then have "\<forall>i<k. x i - y i = 0" using assms unfolding lin_inj_def by blast
    then show "x = y" using x y by (intro PiE_ext[of x _ _ y]) auto
  qed
  moreover have "finite ?V" by (intro finite_PiE) auto
  moreover have "?f ` ?V \<subseteq> ?V" by (rule image_subsetI) (simp add: restrict_PiE_iff)
  ultimately have onto: "?f ` ?V = ?V" by (intro endo_inj_surj)
  show ?thesis
    unfolding lin_onto_def
  proof
    fix y :: "nat \<Rightarrow> 'a"
    have "restrict y {..<k} \<in> ?f ` ?V" unfolding onto by auto
    then obtain x where "restrict y {..<k} = ?f x" by blast
    from fun_cong[OF this] have "lin k A x i = y i" if "i < k" for i using that by (metis lessThan_iff restrict_apply')
    then show "\<exists>x. \<forall>i<k. lin k A x i = y i" by blast
  qed
qed

section \<open>The exchange step\<close>

definition sweep :: "nat \<Rightarrow> (nat \<Rightarrow> nat \<Rightarrow> 'a::field) \<Rightarrow> nat \<Rightarrow> nat \<Rightarrow> 'a" where
  "sweep c A = (\<lambda>i j. let d = inverse (A c c) in
     if i = c then (if j = c then d else - d * A c j)
     else (if j = c then A i c * d else A i j - A i c * d * A c j))"

text \<open>Solving row \<open>c\<close> for its variable \<open>u c\<close> and substituting it in the other rows.\<close>

lemma sweep_exchange:
  assumes "c < k" "A c c \<noteq> 0" and rows: "\<And>i. i < k \<Longrightarrow> v i = lin k A u i" and "i < k"
  shows "(v(c := u c)) i = lin k (sweep c A) (u(c := v c)) i"
proof -
  let ?R = "{..<k} - {c}"
  have split: "lin k B x l = B l c * x c + (\<Sum>j\<in>?R. B l j * x j)" for B :: "nat \<Rightarrow> nat \<Rightarrow> 'a" and x l
    unfolding lin_def using \<open>c < k\<close> by (subst sum.remove[of _ c]) auto
  have vc: "v c = A c c * u c + (\<Sum>j\<in>?R. A c j * u j)" using rows[OF \<open>c < k\<close>] split by simp
  have uc: "u c = inverse (A c c) * v c - inverse (A c c) * (\<Sum>j\<in>?R. A c j * u j)"
    using \<open>A c c \<noteq> 0\<close> unfolding vc by (simp add: algebra_simps)
  show ?thesis
  proof (cases "i = c")
    case True
    have "(\<Sum>j\<in>?R. sweep c A c j * (u(c := v c)) j) = - (inverse (A c c) * (\<Sum>j\<in>?R. A c j * u j))"
      unfolding sum_distrib_left sum_negf [symmetric] by (rule sum.cong) (auto simp: sweep_def Let_def)
    then show ?thesis using True uc unfolding split by (simp add: sweep_def Let_def)
  next
    case False
    define S T where "S = (\<Sum>j\<in>?R. A i j * u j)" and "T = (\<Sum>j\<in>?R. A c j * u j)"
    have rest: "(\<Sum>j\<in>?R. sweep c A i j * (u(c := v c)) j) = S - A i c * (inverse (A c c) * T)"
      unfolding S_def T_def sum_distrib_left sum_subtractf [symmetric]
      by (rule sum.cong) (use False in \<open>auto simp: sweep_def Let_def algebra_simps\<close>)
    have "v i = A i c * u c + S" using rows[OF \<open>i < k\<close>] split by (simp add: S_def)
    moreover have "u c = inverse (A c c) * v c - inverse (A c c) * T" using uc by (simp only: T_def)
    ultimately have "v i = A i c * inverse (A c c) * v c + (S - A i c * (inverse (A c c) * T))"
      by (simp add: algebra_simps)
    then show ?thesis
      unfolding split rest using False by (simp add: sweep_def Let_def)
  qed
qed

section \<open>Vandermonde systems\<close>

definition vdm :: "(nat \<Rightarrow> 'a::field) \<Rightarrow> nat \<Rightarrow> nat \<Rightarrow> 'a" where
  "vdm p i j = p i ^ j"

text \<open>Synthetic division of \<open>a\<close> by \<open>z - w\<close>: quotient \<open>b\<close>, remainder \<open>a 0 + w * b 0\<close>.\<close>

lemma synthetic_division:
  fixes a b :: "nat \<Rightarrow> 'a::field"
  assumes quot: "\<And>i. i < k \<Longrightarrow> b i = a (Suc i) + w * b (Suc i)" and "b k = 0"
  shows "(\<Sum>j<Suc k. a j * z ^ j) = (z - w) * (\<Sum>i<k. b i * z ^ i) + (a 0 + w * b 0)"
proof -
  have shift: "(\<Sum>i<k. b (Suc i) * z ^ Suc i) = (\<Sum>i<k. b i * z ^ i) - b 0"
  proof -
    have "b 0 + (\<Sum>i<k. b (Suc i) * z ^ Suc i) = (\<Sum>i<Suc k. b i * z ^ i)"
      by (subst sum.lessThan_Suc_shift) simp
    also have "\<dots> = (\<Sum>i<k. b i * z ^ i)" using \<open>b k = 0\<close> by simp
    finally show ?thesis by (simp add: eq_diff_eq add.commute)
  qed
  have "(\<Sum>j<Suc k. a j * z ^ j) = a 0 + (\<Sum>i<k. a (Suc i) * z ^ Suc i)"
    by (subst sum.lessThan_Suc_shift) simp
  also have "(\<Sum>i<k. a (Suc i) * z ^ Suc i) = (\<Sum>i<k. z * (b i * z ^ i) - w * (b (Suc i) * z ^ Suc i))"
    by (rule sum.cong) (use quot in \<open>auto simp: algebra_simps\<close>)
  also have "\<dots> = z * (\<Sum>i<k. b i * z ^ i) - w * ((\<Sum>i<k. b i * z ^ i) - b 0)"
    unfolding sum_subtractf sum_distrib_left [symmetric] shift ..
  finally show ?thesis by (simp add: algebra_simps)
qed

lemma many_roots_zero:
  fixes a :: "nat \<Rightarrow> 'a::field"
  assumes "inj_on p {..<k}" "\<And>i. i < k \<Longrightarrow> (\<Sum>j<k. a j * p i ^ j) = 0" "j < k"
  shows "a j = 0"
  using assms
proof (induction k arbitrary: a j)
  case (Suc k)
  let ?w = "p k"
  define b where "b i = (\<Sum>j<k - i. a (Suc i + j) * ?w ^ j)" for i
  have rec: "b i = a (Suc i) + ?w * b (Suc i)" if "i < k" for i
  proof -
    have "k - i = Suc (k - Suc i)" using that by simp
    then show ?thesis
      unfolding b_def by (simp only: sum.lessThan_Suc_shift) (simp add: sum_distrib_left algebra_simps)
  qed
  have bk: "b k = 0" by (simp add: b_def)
  have rem: "a 0 + ?w * b 0 = 0"
    using synthetic_division[of k b a ?w ?w, OF rec bk] Suc.prems(2)[of k] by simp
  have "b i = 0" if "i < k" for i
  proof (rule Suc.IH[OF _ _ that])
    show "inj_on p {..<k}" using Suc.prems(1) by (rule inj_on_subset) auto
    fix l assume "l < k"
    then have "p l - ?w \<noteq> 0" using Suc.prems(1) by (auto dest: inj_onD)
    moreover have "(p l - ?w) * (\<Sum>i<k. b i * p l ^ i) = 0"
      using synthetic_division[of k b a ?w "p l", OF rec bk] Suc.prems(2)[of l] \<open>l < k\<close> rem by simp
    ultimately show "(\<Sum>i<k. b i * p l ^ i) = 0" by simp
  qed
  then have b0: "b i = 0" if "i \<le> k" for i using bk that by (cases "i = k") auto
  show ?case
  proof (cases j)
    case 0
    then show ?thesis using rem b0[of 0] by simp
  next
    case (Suc i)
    then show ?thesis using rec[of i] b0[of i] b0[of "Suc i"] Suc.prems(3) by simp
  qed
qed simp

lemma vdm_inj: "inj_on p {..<k} \<Longrightarrow> lin_inj k (vdm p)"
  unfolding lin_inj_def lin_def vdm_def
proof (intro allI impI)
  fix x i
  assume p: "inj_on p {..<k}" and z: "\<forall>i<k. (\<Sum>j<k. p i ^ j * x j) = 0" and i: "i < k"
  show "x i = 0"
    by (rule many_roots_zero[OF p _ i]) (use z in \<open>simp add: mult.commute\<close>)
qed

text \<open>A right inverse of an injective square matrix is also a left inverse.\<close>

lemma right_inverse_left:
  assumes inj: "lin_inj k V" and right: "\<And>x i. i < k \<Longrightarrow> lin k V (lin k W x) i = x i" and i: "i < k"
  shows "lin k W (lin k V a) i = a i"
proof -
  have "lin k V (\<lambda>j. lin k W (lin k V a) j - a j) l = 0" if "l < k" for l
    using right[OF that, of "lin k V a"] by (simp add: lin_diff)
  then have "\<forall>l<k. lin k W (lin k V a) l - a l = 0"
    using inj[unfolded lin_inj_def, rule_format, of "\<lambda>j. lin k W (lin k V a) j - a j"] by blast
  then show ?thesis using i by simp
qed

end
