(* ===== verification/Fec_Matrix.thy ===== *)
theory Fec_Matrix
  imports GF256 Linear
begin

text \<open>
  The matrix routines of \<^verbatim>\<open>src/ref/UDPspeeder/lib/fec.cpp\<close>: \<^verbatim>\<open>addmul1\<close>, \<^verbatim>\<open>matmul\<close>, the in-place
  Gauss-Jordan inversion \<^verbatim>\<open>invert_mat\<close> and the inversion of a Vandermonde matrix \<^verbatim>\<open>invert_vdm\<close>. A
  matrix is the byte array the code has, row after row; \<open>mat k m\<close> is the matrix over the field it
  stands for.
\<close>

section \<open>Row operations\<close>

definition UNROLL :: nat where
  "UNROLL = 16"

definition GF_ADDMULC :: "u8 \<Rightarrow> bytes \<Rightarrow> nat \<Rightarrow> bytes \<Rightarrow> bytes" where
  "GF_ADDMULC c src i dst = dst[i := dst ! i XOR gf_mul_table ! unat c ! unat (src ! i)]"

text \<open>The unrolled loop runs while a whole block of \<open>UNROLL\<close> bytes is left, the last loop does the rest.\<close>

function addmul1_blocks :: "bytes \<Rightarrow> u8 \<Rightarrow> nat \<Rightarrow> nat \<Rightarrow> bytes \<Rightarrow> nat \<times> bytes" where
  "addmul1_blocks src c sz d dst =
    (if d + UNROLL \<le> sz
     then addmul1_blocks src c sz (d + UNROLL)
       (GF_ADDMULC c src (d + 15) (GF_ADDMULC c src (d + 14) (GF_ADDMULC c src (d + 13)
       (GF_ADDMULC c src (d + 12) (GF_ADDMULC c src (d + 11) (GF_ADDMULC c src (d + 10)
       (GF_ADDMULC c src (d + 9) (GF_ADDMULC c src (d + 8) (GF_ADDMULC c src (d + 7)
       (GF_ADDMULC c src (d + 6) (GF_ADDMULC c src (d + 5) (GF_ADDMULC c src (d + 4)
       (GF_ADDMULC c src (d + 3) (GF_ADDMULC c src (d + 2) (GF_ADDMULC c src (d + 1)
       (GF_ADDMULC c src d dst))))))))))))))))
     else (d, dst))"
  by pat_completeness auto
termination
  by (relation "measure (\<lambda>(src, c, sz, d, dst). sz - d)") (auto simp: UNROLL_def)

declare addmul1_blocks.simps [simp del]

definition addmul1 :: "bytes \<Rightarrow> bytes \<Rightarrow> u8 \<Rightarrow> nat \<Rightarrow> bytes" where
  "addmul1 dst src c sz = (case addmul1_blocks src c sz 0 dst of
     (d, dst) \<Rightarrow> fold (GF_ADDMULC c src) [d..<sz] dst)"

definition addmul :: "bytes \<Rightarrow> bytes \<Rightarrow> u8 \<Rightarrow> nat \<Rightarrow> bytes" where
  "addmul dst src c sz = (if c \<noteq> 0 then addmul1 dst src c sz else dst)"

text \<open>\<^verbatim>\<open>matmul(a, b, c, n, k, m)\<close>: the array \<^verbatim>\<open>c\<close> it fills.\<close>

definition matmul :: "bytes \<Rightarrow> bytes \<Rightarrow> nat \<Rightarrow> nat \<Rightarrow> nat \<Rightarrow> bytes \<Rightarrow> bytes" where
  "matmul a b n k m =
     fold (\<lambda>row. fold (\<lambda>col c.
         c[row * m + col := fold (\<lambda>i acc. acc XOR gf_mul (a ! (row * k + i)) (b ! (col + i * m))) [0..<k] 0])
       [0..<m]) [0..<n]"

section \<open>\<^verbatim>\<open>invert_mat\<close>\<close>

datatype pivot = Pivot nat nat | Pivot_singular | Pivot_none

fun scan_row :: "bytes \<Rightarrow> nat list \<Rightarrow> nat \<Rightarrow> nat \<Rightarrow> nat list \<Rightarrow> pivot" where
  "scan_row src ipiv k row [] = Pivot_none"
| "scan_row src ipiv k row (ix # ixs) =
    (if ipiv ! ix = 0 then
       (if src ! (row * k + ix) \<noteq> 0 then Pivot row ix else scan_row src ipiv k row ixs)
     else if ipiv ! ix > 1 then Pivot_singular
     else scan_row src ipiv k row ixs)"

fun scan_rows :: "bytes \<Rightarrow> nat list \<Rightarrow> nat \<Rightarrow> nat list \<Rightarrow> pivot" where
  "scan_rows src ipiv k [] = Pivot_none"
| "scan_rows src ipiv k (row # rows) =
    (if ipiv ! row \<noteq> 1 then
       (case scan_row src ipiv k row [0..<k] of
          Pivot_none \<Rightarrow> scan_rows src ipiv k rows
        | p \<Rightarrow> p)
     else scan_rows src ipiv k rows)"

definition find_pivot :: "bytes \<Rightarrow> nat list \<Rightarrow> nat \<Rightarrow> nat \<Rightarrow> pivot" where
  "find_pivot src ipiv k col =
    (if ipiv ! col \<noteq> 1 \<and> src ! (col * k + col) \<noteq> 0 then Pivot col col
     else scan_rows src ipiv k [0..<k])"

definition swap_rows :: "nat \<Rightarrow> nat \<Rightarrow> nat \<Rightarrow> bytes \<Rightarrow> bytes" where
  "swap_rows k r1 r2 = fold (\<lambda>ix. swap_nth (r1 * k + ix) (r2 * k + ix)) [0..<k]"

definition swap_cols :: "nat \<Rightarrow> nat \<Rightarrow> nat \<Rightarrow> bytes \<Rightarrow> bytes" where
  "swap_cols k c1 c2 = fold (\<lambda>row. swap_nth (row * k + c1) (row * k + c2)) [0..<k]"

text \<open>\<open>row_slice k r m\<close> is the row at \<^verbatim>\<open>&m[r * k]\<close>.\<close>

definition row_slice :: "nat \<Rightarrow> nat \<Rightarrow> bytes \<Rightarrow> bytes" where
  "row_slice k r m = take k (drop (r * k) m)"

definition normalise_row :: "nat \<Rightarrow> nat \<Rightarrow> bytes \<Rightarrow> bytes" where
  "normalise_row k icol src =
    (let c = src ! (icol * k + icol) in
     if c \<noteq> 1 then
       (let c = gf_inv c; src = src[icol * k + icol := 1] in
        fold (\<lambda>ix s. s[icol * k + ix := gf_mul c (s ! (icol * k + ix))]) [0..<k] src)
     else src)"

definition eliminate_row :: "nat \<Rightarrow> nat \<Rightarrow> nat \<Rightarrow> bytes \<Rightarrow> bytes" where
  "eliminate_row k icol ix src =
    (if ix \<noteq> icol then
       (let c = src ! (ix * k + icol); src = src[ix * k + icol := 0]
        in overwrite (ix * k) (addmul (row_slice k ix src) (row_slice k icol src) c k) src)
     else src)"

definition eliminate :: "nat \<Rightarrow> nat \<Rightarrow> bytes \<Rightarrow> bytes" where
  "eliminate k icol src =
    (if row_slice k icol src \<noteq> (replicate k 0)[icol := 1]
     then fold (eliminate_row k icol) [0..<k] src else src)"

record gj_state =
  gj_src :: bytes
  gj_ipiv :: "nat list"
  gj_indxr :: "nat list"
  gj_indxc :: "nat list"

definition invert_mat_col :: "nat \<Rightarrow> nat \<Rightarrow> gj_state \<Rightarrow> gj_state option" where
  "invert_mat_col k col st =
    (case find_pivot (gj_src st) (gj_ipiv st) k col of
       Pivot irow icol \<Rightarrow>
         (let ipiv = (gj_ipiv st)[icol := gj_ipiv st ! icol + 1];
              src = (if irow \<noteq> icol then swap_rows k irow icol (gj_src st) else gj_src st);
              indxr = (gj_indxr st)[col := irow]; indxc = (gj_indxc st)[col := icol]
          in if src ! (icol * k + icol) = 0 then None
             else Some \<lparr>gj_src = eliminate k icol (normalise_row k icol src), gj_ipiv = ipiv,
                        gj_indxr = indxr, gj_indxc = indxc\<rparr>)
     | _ \<Rightarrow> None)"

definition unswap_col :: "nat \<Rightarrow> nat list \<Rightarrow> nat list \<Rightarrow> nat \<Rightarrow> bytes \<Rightarrow> bytes" where
  "unswap_col k indxr indxc col src =
    (if indxr ! col \<ge> k then src else if indxc ! col \<ge> k then src
     else if indxr ! col \<noteq> indxc ! col then swap_cols k (indxr ! col) (indxc ! col) src else src)"

text \<open>The index arrays come from \<^verbatim>\<open>malloc\<close>; every entry is written before it is read. The result
  \<open>None\<close> is the return value 1 (singular).\<close>

definition invert_mat :: "bytes \<Rightarrow> nat \<Rightarrow> bytes option" where
  "invert_mat src k =
    (case fold_option (invert_mat_col k) [0..<k]
        \<lparr>gj_src = src, gj_ipiv = replicate k 0, gj_indxr = replicate k 0, gj_indxc = replicate k 0\<rparr> of
       None \<Rightarrow> None
     | Some st \<Rightarrow> Some (fold (unswap_col k (gj_indxr st) (gj_indxc st)) (rev [0..<k]) (gj_src st)))"

section \<open>\<^verbatim>\<open>invert_vdm\<close>\<close>

definition vdm_points :: "bytes \<Rightarrow> nat \<Rightarrow> bytes" where
  "vdm_points src k = map (\<lambda>i. src ! (1 + i * k)) [0..<k]"

definition vdm_coeff_step :: "nat \<Rightarrow> bytes \<Rightarrow> nat \<Rightarrow> bytes \<Rightarrow> bytes" where
  "vdm_coeff_step k p i c =
    (let p_i = p ! i;
         c = fold (\<lambda>j c. c[j := c ! j XOR gf_mul p_i (c ! (j + 1))]) [k - 1 - (i - 1)..<k - 1] c
     in c[k - 1 := c ! (k - 1) XOR p_i])"

definition vdm_coeffs :: "nat \<Rightarrow> bytes \<Rightarrow> bytes" where
  "vdm_coeffs k p = fold (vdm_coeff_step k p) [1..<k] ((replicate k 0)[k - 1 := p ! 0])"

text \<open>Synthetic division by one factor: the quotient's coefficients and its value at \<^verbatim>\<open>xx\<close>.\<close>

definition vdm_divide :: "nat \<Rightarrow> bytes \<Rightarrow> u8 \<Rightarrow> bytes \<times> u8" where
  "vdm_divide k c xx =
    fold (\<lambda>i (b, t). let b = b[i := c ! (i + 1) XOR gf_mul xx (b ! (i + 1))]
                     in (b, gf_mul xx t XOR b ! i))
      (rev [0..<k - 1]) ((replicate k 0)[k - 1 := 1], 1)"

definition invert_vdm :: "bytes \<Rightarrow> nat \<Rightarrow> bytes" where
  "invert_vdm src k =
    (if k = 1 then src
     else (let p = vdm_points src k; c = vdm_coeffs k p in
       fold (\<lambda>row src. case vdm_divide k c (p ! row) of
           (b, t) \<Rightarrow> fold (\<lambda>col src. src[col * k + row := gf_mul (gf_inv t) (b ! col)]) [0..<k] src)
         [0..<k] src))"

section \<open>What the row operations compute\<close>

definition mat :: "nat \<Rightarrow> bytes \<Rightarrow> nat \<Rightarrow> nat \<Rightarrow> gf256" where
  "mat k m r c = GF (m ! (r * k + c))"

lemma addmul1_blocks_fold:
  "(case addmul1_blocks src c sz d dst of (d', dst') \<Rightarrow> fold (GF_ADDMULC c src) [d'..<sz] dst')
   = fold (GF_ADDMULC c src) [d..<sz] dst"
proof (induction src c sz d dst rule: addmul1_blocks.induct)
  case (1 src c sz d dst)
  show ?case
  proof (cases "d + UNROLL \<le> sz")
    case True
    then have "[d..<sz] = [d..<d + 16] @ [d + 16..<sz]"
      by (metis UNROLL_def le_add1 upt_add_eq_append le_add_diff_inverse)
    moreover have "[d..<d + 16] = [d, d + 1, d + 2, d + 3, d + 4, d + 5, d + 6, d + 7, d + 8, d + 9,
        d + 10, d + 11, d + 12, d + 13, d + 14, d + 15]"
      by (simp add: upt_rec numeral_eq_Suc)
    ultimately show ?thesis
      using True 1 by (subst addmul1_blocks.simps) (simp add: UNROLL_def)
  next
    case False
    then show ?thesis by (subst addmul1_blocks.simps) simp
  qed
qed

lemma addmul1_fold: "addmul1 dst src c sz = fold (GF_ADDMULC c src) [0..<sz] dst"
  unfolding addmul1_def by (rule addmul1_blocks_fold)

lemma addmul1_spec:
  assumes "sz \<le> length dst"
  shows "length (addmul1 dst src c sz) = length dst \<and> (\<forall>i < length dst. addmul1 dst src c sz ! i =
    (if i < sz then dst ! i XOR gf_mul c (src ! i) else dst ! i))"
proof -
  define P where "P n d \<longleftrightarrow> length d = length dst \<and> (\<forall>i < length dst. d ! i =
    (if i < n then dst ! i XOR gf_mul c (src ! i) else dst ! i))" for n d
  have "P sz (fold (GF_ADDMULC c src) [0..<sz] dst)"
    by (rule fold_upt_invariant [where P = P])
      (use assms in \<open>auto simp: P_def GF_ADDMULC_def gf_mul_def [symmetric] nth_list_update less_Suc_eq\<close>)
  then show ?thesis by (simp add: P_def addmul1_fold)
qed

lemma addmul_spec:
  assumes "sz \<le> length dst"
  shows "length (addmul dst src c sz) = length dst"
    and "i < length dst \<Longrightarrow> addmul dst src c sz ! i =
      (if i < sz then dst ! i XOR gf_mul c (src ! i) else dst ! i)"
  using addmul1_spec[OF assms, of src c] by (auto simp: addmul_def)

lemma GF_fold_xor: "GF (fold (\<lambda>i acc. acc XOR f i) [0..<k] a) = GF a + (\<Sum>i<k. GF (f i))"
  by (induction k) (simp_all add: add.assoc)

lemma matmul_spec:
  assumes "n * m \<le> length c"
  shows "length (matmul a b n k m c) = length c"
    and "r < n \<Longrightarrow> s < m \<Longrightarrow> mat m (matmul a b n k m c) r s = (\<Sum>i<k. mat k a r i * GF (b ! (s + i * m)))"
proof -
  define acc where "acc row col = fold (\<lambda>i acc. acc XOR gf_mul (a ! (row * k + i)) (b ! (col + i * m))) [0..<k] 0"
    for row col
  define Q where "Q row n' c' \<longleftrightarrow> length c' = length c \<and>
    (\<forall>r < n. \<forall>s < m. r < row \<or> r = row \<and> s < n' \<longrightarrow> c' ! (r * m + s) = acc r s)" for row n' c'
  have inner: "Q row m (fold (\<lambda>col c. c[row * m + col := acc row col]) [0..<m] c')"
    if "row < n" "Q row 0 c'" for row c'
  proof (rule fold_upt_invariant [where P = "Q row"])
    fix i s assume i: "i < m" "Q row i s"
    have "row * m + i < length c" using row_col_less[OF that(1) i(1)] assms by linarith
    then show "Q row (Suc i) (s[row * m + i := acc row i])"
      using i unfolding Q_def by (auto simp: nth_list_update row_col_inject less_Suc_eq)
  qed (use that in auto)
  have "Q n 0 (matmul a b n k m c)"
    unfolding matmul_def acc_def [symmetric]
  proof (rule fold_upt_invariant [where P = "\<lambda>row. Q row 0"])
    fix i s assume "i < n" "Q i 0 s"
    from inner[OF this] show "Q (Suc i) 0 (fold (\<lambda>col c. c[i * m + col := acc i col]) [0..<m] s)"
      unfolding Q_def by (auto simp: less_Suc_eq)
  qed (auto simp: Q_def)
  then show "length (matmul a b n k m c) = length c"
    and "r < n \<Longrightarrow> s < m \<Longrightarrow> mat m (matmul a b n k m c) r s = (\<Sum>i<k. mat k a r i * GF (b ! (s + i * m)))"
    by (auto simp: Q_def mat_def acc_def GF_fold_xor)
qed

text \<open>Row and column swaps.\<close>

lemma swap_rows_spec:
  assumes "length m = k * k" "r1 < k" "r2 < k"
  shows "length (swap_rows k r1 r2 m) = k * k"
    and "r < k \<Longrightarrow> c < k \<Longrightarrow> mat k (swap_rows k r1 r2 m) r c =
      mat k m (if r = r1 then r2 else if r = r2 then r1 else r) c"
proof -
  define P where "P n s \<longleftrightarrow> length s = k * k \<and> (\<forall>r < k. \<forall>c < k. s ! (r * k + c) =
    (if c < n then m ! ((if r = r1 then r2 else if r = r2 then r1 else r) * k + c) else m ! (r * k + c)))" for n s
  have "P k (swap_rows k r1 r2 m)"
    unfolding swap_rows_def
  proof (rule fold_upt_invariant [where P = P])
    fix i s assume i: "i < k" "P i s"
    have "r1 * k + i < k * k" "r2 * k + i < k * k" using i assms by (auto intro: row_col_less)
    then show "P (Suc i) (swap_nth (r1 * k + i) (r2 * k + i) s)"
      using i assms unfolding P_def
      by (auto simp: nth_swap_nth row_col_inject row_col_less less_Suc_eq)
  qed (use assms in \<open>auto simp: P_def\<close>)
  then show "length (swap_rows k r1 r2 m) = k * k"
    and "r < k \<Longrightarrow> c < k \<Longrightarrow> mat k (swap_rows k r1 r2 m) r c =
      mat k m (if r = r1 then r2 else if r = r2 then r1 else r) c"
    by (simp_all add: P_def mat_def)
qed

lemma swap_cols_spec:
  assumes "length m = k * k" "c1 < k" "c2 < k"
  shows "length (swap_cols k c1 c2 m) = k * k"
    and "r < k \<Longrightarrow> c < k \<Longrightarrow> mat k (swap_cols k c1 c2 m) r c =
      mat k m r (if c = c1 then c2 else if c = c2 then c1 else c)"
proof -
  define P where "P n s \<longleftrightarrow> length s = k * k \<and> (\<forall>r < k. \<forall>c < k. s ! (r * k + c) =
    (if r < n then m ! (r * k + (if c = c1 then c2 else if c = c2 then c1 else c)) else m ! (r * k + c)))" for n s
  have "P k (swap_cols k c1 c2 m)"
    unfolding swap_cols_def
  proof (rule fold_upt_invariant [where P = P])
    fix i s assume i: "i < k" "P i s"
    have "i * k + c1 < k * k" "i * k + c2 < k * k" using i assms by (auto intro: row_col_less)
    then show "P (Suc i) (swap_nth (i * k + c1) (i * k + c2) s)"
      using i assms unfolding P_def
      by (auto simp: nth_swap_nth row_col_inject row_col_less less_Suc_eq)
  qed (use assms in \<open>auto simp: P_def\<close>)
  then show "length (swap_cols k c1 c2 m) = k * k"
    and "r < k \<Longrightarrow> c < k \<Longrightarrow> mat k (swap_cols k c1 c2 m) r c =
      mat k m r (if c = c1 then c2 else if c = c2 then c1 else c)"
    by (simp_all add: P_def mat_def)
qed

text \<open>Normalising the pivot row and eliminating its column is the exchange step.\<close>

lemma nth_row_slice: "r < k \<Longrightarrow> c < k \<Longrightarrow> length m = k * k \<Longrightarrow> row_slice k r m ! c = m ! (r * k + c)"
  using row_col_less[of r k c k] by (simp add: row_slice_def)

lemma length_row_slice: "r < k \<Longrightarrow> length m = k * k \<Longrightarrow> length (row_slice k r m) = k"
proof -
  assume "r < k" "length m = k * k"
  moreover have "r * k + k \<le> k * k" using mult_le_mono1[of "Suc r" k k] \<open>r < k\<close> by simp
  ultimately show ?thesis by (simp add: row_slice_def)
qed

lemma normalise_row_spec:
  assumes len: "length m = k * k" and c: "c < k" and nz: "mat k m c c \<noteq> 0"
  shows "length (normalise_row k c m) = k * k"
    and "i < k \<Longrightarrow> j < k \<Longrightarrow> mat k (normalise_row k c m) i j =
      (if i = c then (if j = c then inverse (mat k m c c) else inverse (mat k m c c) * mat k m c j)
       else mat k m i j)"
proof -
  define e where "e = m ! (c * k + c)"
  define P where "P n s \<longleftrightarrow> length s = k * k \<and> (\<forall>i < k. \<forall>j < k. s ! (i * k + j) =
    (if i = c then (let x = (if j = c then 1 else m ! (c * k + j)) in if j < n then gf_mul (gf_inv e) x else x)
     else m ! (i * k + j)))" for n s
  have cc: "c * k + c < k * k" using c by (auto intro: row_col_less)
  have "P k (fold (\<lambda>ix s. s[c * k + ix := gf_mul (gf_inv e) (s ! (c * k + ix))]) [0..<k] (m[c * k + c := 1]))"
  proof (rule fold_upt_invariant [where P = P])
    show "P 0 (m[c * k + c := 1])"
      using len c cc by (auto simp: P_def nth_list_update row_col_inject)
    fix i s assume i: "i < k" "P i s"
    have "c * k + i < k * k" using i c by (auto intro: row_col_less)
    then show "P (Suc i) (s[c * k + i := gf_mul (gf_inv e) (s ! (c * k + i))])"
      using i c unfolding P_def by (auto simp: nth_list_update row_col_inject less_Suc_eq Let_def)
  qed simp
  then have "length (normalise_row k c m) = k * k \<and> (\<forall>i<k. \<forall>j<k. mat k (normalise_row k c m) i j =
      (if i = c then (if j = c then inverse (mat k m c c) else inverse (mat k m c c) * mat k m c j)
       else mat k m i j))"
    using len by (cases "e = 1") (auto simp: normalise_row_def P_def e_def [symmetric] mat_def Let_def)
  then show "length (normalise_row k c m) = k * k"
    and "i < k \<Longrightarrow> j < k \<Longrightarrow> mat k (normalise_row k c m) i j =
      (if i = c then (if j = c then inverse (mat k m c c) else inverse (mat k m c c) * mat k m c j)
       else mat k m i j)"
    by blast+
qed

lemma eliminate_row_spec:
  assumes len: "length m = k * k" and c: "c < k" and ix: "ix < k" "ix \<noteq> c"
  shows "length (eliminate_row k c ix m) = k * k"
    and "i < k \<Longrightarrow> j < k \<Longrightarrow> mat k (eliminate_row k c ix m) i j =
      (if i = ix then (if j = c then 0 else mat k m ix j) + mat k m ix c * mat k m c j else mat k m i j)"
proof -
  define m' where "m' = m[ix * k + c := 0]"
  define r where "r = addmul (row_slice k ix m') (row_slice k c m') (m ! (ix * k + c)) k"
  have len': "length m' = k * k" by (simp add: m'_def len)
  have lr: "length r = k"
    unfolding r_def using length_row_slice[OF ix(1) len'] by (simp add: addmul_spec)
  have fit: "ix * k + length r \<le> length m'"
    using mult_le_mono1[of "Suc ix" k k] ix by (simp add: lr len')
  have nth: "m' ! (i * k + j) = (if i = ix \<and> j = c then 0 else m ! (i * k + j))" if "i < k" "j < k" for i j
    using that c len row_col_less[OF that] by (auto simp: m'_def nth_list_update row_col_inject)
  have r_nth: "r ! j = m' ! (ix * k + j) XOR gf_mul (m ! (ix * k + c)) (m' ! (c * k + j))" if "j < k" for j
    unfolding r_def using that ix c len' by (simp add: addmul_spec length_row_slice nth_row_slice)
  have e: "eliminate_row k c ix m = overwrite (ix * k) r m'"
    using ix by (simp add: eliminate_row_def m'_def r_def Let_def)
  show "length (eliminate_row k c ix m) = k * k" using fit by (simp add: e len')
  assume ij: "i < k" "j < k"
  have "overwrite (ix * k) r m' ! (i * k + j) = (if i = ix then r ! j else m' ! (i * k + j))"
    by (rule overwrite_row[OF len' lr ix(1) ij])
  then show "mat k (eliminate_row k c ix m) i j =
      (if i = ix then (if j = c then 0 else mat k m ix j) + mat k m ix c * mat k m c j else mat k m i j)"
    using ij ix c by (auto simp: e mat_def r_nth nth)
qed

lemma eliminate_spec:
  assumes len: "length m = k * k" and c: "c < k"
  shows "length (eliminate k c m) = k * k"
    and "i < k \<Longrightarrow> j < k \<Longrightarrow> mat k (eliminate k c m) i j =
      (if i \<noteq> c then (if j = c then 0 else mat k m i j) + mat k m i c * mat k m c j else mat k m i j)"
proof -
  define goal where "goal s n \<longleftrightarrow> length s = k * k \<and> (\<forall>i < k. \<forall>j < k. mat k s i j =
      (if i < n \<and> i \<noteq> c then (if j = c then 0 else mat k m i j) + mat k m i c * mat k m c j else mat k m i j))"
    for s n
  have "goal (eliminate k c m) k"
  proof (cases "row_slice k c m = (replicate k 0)[c := 1]")
    case True
    then have "mat k m c j = (if j = c then 1 else 0)" if "j < k" for j
      using nth_row_slice[OF c that len] that c by (auto simp: mat_def)
    then show ?thesis using True len by (auto simp: goal_def eliminate_def)
  next
    case False
    have "goal (fold (eliminate_row k c) [0..<k] m) k"
    proof (rule fold_upt_invariant [where P = "\<lambda>n s. goal s n"])
      fix i s assume i: "i < k" "goal s i"
      show "goal (eliminate_row k c i s) (Suc i)"
      proof (cases "i = c")
        case True
        then show ?thesis using i by (auto simp: eliminate_row_def goal_def less_Suc_eq)
      next
        case False
        have ls: "length s = k * k" using i by (simp add: goal_def)
        show ?thesis
          using i False c unfolding goal_def
          by (auto simp: eliminate_row_spec[OF ls c i(1) False] less_Suc_eq)
      qed
    qed (auto simp: goal_def len)
    then show ?thesis using False by (simp add: eliminate_def)
  qed
  then show "length (eliminate k c m) = k * k"
    and "i < k \<Longrightarrow> j < k \<Longrightarrow> mat k (eliminate k c m) i j =
      (if i \<noteq> c then (if j = c then 0 else mat k m i j) + mat k m i c * mat k m c j else mat k m i j)"
    by (auto simp: goal_def)
qed

lemma eliminate_sweep:
  assumes "length m = k * k" "c < k" "mat k m c c \<noteq> 0"
  shows "length (eliminate k c (normalise_row k c m)) = k * k"
    and "i < k \<Longrightarrow> j < k \<Longrightarrow> mat k (eliminate k c (normalise_row k c m)) i j = sweep c (mat k m) i j"
  using assms normalise_row_spec[OF assms] eliminate_spec[of "normalise_row k c m"]
  by (auto simp: sweep_def Let_def mult.assoc)

section \<open>Gauss-Jordan elimination inverts\<close>

definition swap_ix :: "nat \<Rightarrow> nat \<Rightarrow> nat \<Rightarrow> nat" where
  "swap_ix r c i = (if i = r then c else if i = c then r else i)"

lemma swap_ix_swap_ix [simp]: "swap_ix r c (swap_ix r c i) = i"
  by (simp add: swap_ix_def)

lemma swap_ix_same [simp]: "swap_ix r r = id"
  by (auto simp: swap_ix_def)

lemma swap_ix_less: "r < k \<Longrightarrow> c < k \<Longrightarrow> i < k \<Longrightarrow> swap_ix r c i < k"
  by (simp add: swap_ix_def)

text \<open>
  The state between two rounds: the rows and columns in \<open>P\<close> have been exchanged, so the current
  matrix maps the vector that has the right-hand side \<open>A0 x\<close> (permuted by \<open>\<rho>\<close>) in the positions
  of \<open>P\<close> and the unknowns \<open>x\<close> elsewhere to the vector with the roles of the two swapped.
\<close>

definition exch :: "nat \<Rightarrow> (nat \<Rightarrow> nat \<Rightarrow> 'a::field) \<Rightarrow> (nat \<Rightarrow> bool) \<Rightarrow> (nat \<Rightarrow> nat) \<Rightarrow> (nat \<Rightarrow> nat \<Rightarrow> 'a) \<Rightarrow> bool" where
  "exch k A0 P \<rho> A \<longleftrightarrow> (\<forall>x. \<forall>i<k. (if P i then x i else lin k A0 x (\<rho> i)) =
     lin k A (\<lambda>j. if P j then lin k A0 x (\<rho> j) else x j) i)"

lemma exch_init: "exch k A (\<lambda>_. False) id A"
  by (simp add: exch_def)

lemma exch_cong:
  assumes "exch k A0 P \<rho> A" "\<And>i j. i < k \<Longrightarrow> j < k \<Longrightarrow> A i j = B i j" "\<And>i. i < k \<Longrightarrow> P i = Q i"
  shows "exch k A0 Q \<rho> B"
  unfolding exch_def
proof (intro allI impI)
  fix x i assume i: "i < k"
  have "lin k A (\<lambda>j. if P j then lin k A0 x (\<rho> j) else x j) i = lin k B (\<lambda>j. if Q j then lin k A0 x (\<rho> j) else x j) i"
    using assms i by (intro lin_cong) auto
  then show "(if Q i then x i else lin k A0 x (\<rho> i)) = lin k B (\<lambda>j. if Q j then lin k A0 x (\<rho> j) else x j) i"
    using assms(1)[unfolded exch_def, rule_format, OF i, of x] assms(3)[OF i] by simp
qed

lemma exch_swap:
  assumes "exch k A0 P \<rho> A" "\<not> P r" "\<not> P c" "r < k" "c < k"
  shows "exch k A0 P (\<rho> \<circ> swap_ix r c) (\<lambda>i. A (swap_ix r c i))"
  unfolding exch_def
proof (intro allI impI)
  fix x i assume i: "i < k"
  have P: "P (swap_ix r c j) = P j" "P j \<Longrightarrow> swap_ix r c j = j" for j
    using assms(2,3) by (auto simp: swap_ix_def)
  have "(\<lambda>j. if P j then lin k A0 x ((\<rho> \<circ> swap_ix r c) j) else x j) = (\<lambda>j. if P j then lin k A0 x (\<rho> j) else x j)"
    using P by fastforce
  moreover have "lin k (\<lambda>i. A (swap_ix r c i)) u i = lin k A u (swap_ix r c i)" for u by (simp add: lin_def)
  ultimately show "(if P i then x i else lin k A0 x ((\<rho> \<circ> swap_ix r c) i)) =
      lin k (\<lambda>i. A (swap_ix r c i)) (\<lambda>j. if P j then lin k A0 x ((\<rho> \<circ> swap_ix r c) j) else x j) i"
    using assms(1)[unfolded exch_def, rule_format, OF swap_ix_less[OF assms(4,5) i], of x] P[of i] by auto
qed

lemma exch_sweep:
  assumes "exch k A0 P \<rho> A" "\<not> P c" "c < k" "A c c \<noteq> 0"
  shows "exch k A0 (P(c := True)) \<rho> (sweep c A)"
  unfolding exch_def
proof (intro allI impI)
  fix x i assume i: "i < k"
  let ?v = "\<lambda>i. if P i then x i else lin k A0 x (\<rho> i)"
  let ?u = "\<lambda>j. if P j then lin k A0 x (\<rho> j) else x j"
  have "(?v(c := ?u c)) i = lin k (sweep c A) (?u(c := ?v c)) i"
    using assms i by (intro sweep_exchange) (auto simp: exch_def)
  moreover have "(?v(c := ?u c)) i = (if (P(c := True)) i then x i else lin k A0 x (\<rho> i))"
    "?u(c := ?v c) = (\<lambda>j. if (P(c := True)) j then lin k A0 x (\<rho> j) else x j)"
    using assms(2) by auto
  ultimately show "(if (P(c := True)) i then x i else lin k A0 x (\<rho> i)) =
      lin k (sweep c A) (\<lambda>j. if (P(c := True)) j then lin k A0 x (\<rho> j) else x j) i" by simp
qed

lemma exch_pivot:
  assumes ex: "exch k A0 P \<rho> A" and onto: "lin_onto k A0" and r: "r < k" "\<not> P r"
    and inj: "inj_on \<rho> {..<k}" and into: "\<And>i. i < k \<Longrightarrow> \<rho> i < k"
  shows "\<exists>c<k. \<not> P c \<and> A r c \<noteq> 0"
proof (rule ccontr)
  assume none: "\<not> ?thesis"
  obtain x where x: "\<forall>i<k. lin k A0 x i = (if i = \<rho> r then 1 else 0)"
    using onto[unfolded lin_onto_def, rule_format, of "\<lambda>i. if i = \<rho> r then 1 else 0"] by blast
  let ?u = "\<lambda>j. if P j then lin k A0 x (\<rho> j) else x j"
  have "A r j * ?u j = 0" if j: "j < k" for j
  proof (cases "P j")
    case True
    then have "\<rho> j \<noteq> \<rho> r" using inj_onD[OF inj, of j r] r j by auto
    then show ?thesis using x into[OF j] True by simp
  qed (use none j in auto)
  then have "lin k A ?u r = 0" unfolding lin_def by (intro sum.neutral) auto
  moreover have "lin k A0 x (\<rho> r) = lin k A ?u r"
    using ex[unfolded exch_def, rule_format, OF r(1), of x] r(2) by simp
  ultimately show False using x into[OF r(1)] by simp
qed

text \<open>The pivot search finds a usable entry if there is one.\<close>

lemma scan_row_Pivot:
  "scan_row src ipiv k row ixs = Pivot r c \<Longrightarrow> r = row \<and> c \<in> set ixs \<and> ipiv ! c = 0 \<and> src ! (r * k + c) \<noteq> 0"
  by (induction ixs) (auto split: if_splits)

lemma scan_row_total:
  "(\<And>i. i \<in> set ixs \<Longrightarrow> ipiv ! i \<le> 1) \<Longrightarrow> scan_row src ipiv k row ixs \<noteq> Pivot_singular \<and>
   (scan_row src ipiv k row ixs = Pivot_none \<longrightarrow> (\<forall>c \<in> set ixs. ipiv ! c = 0 \<longrightarrow> src ! (row * k + c) = 0))"
  by (induction ixs) (auto simp: not_less)

lemma scan_rows_Pivot:
  "scan_rows src ipiv k rows = Pivot r c \<Longrightarrow>
   r \<in> set rows \<and> ipiv ! r \<noteq> 1 \<and> c < k \<and> ipiv ! c = 0 \<and> src ! (r * k + c) \<noteq> 0"
  by (induction rows) (auto split: if_splits pivot.splits dest: scan_row_Pivot)

lemma scan_rows_total:
  "(\<And>i. i < k \<Longrightarrow> ipiv ! i \<le> 1) \<Longrightarrow> \<exists>r \<in> set rows. \<exists>c<k. ipiv ! r \<noteq> 1 \<and> ipiv ! c = 0 \<and> src ! (r * k + c) \<noteq> 0 \<Longrightarrow>
   \<exists>r c. scan_rows src ipiv k rows = Pivot r c"
proof (induction rows)
  case (Cons row rows)
  have tot: "scan_row src ipiv k row [0..<k] \<noteq> Pivot_singular"
    "scan_row src ipiv k row [0..<k] = Pivot_none \<Longrightarrow> c < k \<Longrightarrow> ipiv ! c = 0 \<Longrightarrow> src ! (row * k + c) = 0" for c
    using scan_row_total[of "[0..<k]" ipiv src k row] Cons.prems(1) by auto
  show ?case
  proof (cases "scan_row src ipiv k row [0..<k]")
    case Pivot_none
    then show ?thesis using Cons tot(2) by (auto split: if_splits)
  qed (use tot(1) Cons in auto)
qed simp

lemma find_pivot_spec:
  assumes "find_pivot src ipiv k col = Pivot r c" "col < k" "\<And>i. i < k \<Longrightarrow> ipiv ! i \<le> 1"
  shows "r < k \<and> c < k \<and> ipiv ! r = 0 \<and> ipiv ! c = 0 \<and> src ! (r * k + c) \<noteq> 0"
  using assms(1,2) assms(3)[of col] assms(3)[of r]
  by (auto simp: find_pivot_def split: if_splits dest!: scan_rows_Pivot)

lemma find_pivot_total:
  assumes "\<And>i. i < k \<Longrightarrow> ipiv ! i \<le> 1" "r < k" "c < k" "ipiv ! r \<noteq> 1" "ipiv ! c = 0" "src ! (r * k + c) \<noteq> 0"
  shows "\<exists>r c. find_pivot src ipiv k col = Pivot r c"
proof -
  have "\<exists>r \<in> set [0..<k]. \<exists>c<k. ipiv ! r \<noteq> 1 \<and> ipiv ! c = 0 \<and> src ! (r * k + c) \<noteq> 0"
    using assms by (intro bexI[of _ r] exI[of _ c]) auto
  from scan_rows_total[OF assms(1) this] show ?thesis by (auto simp: find_pivot_def)
qed

text \<open>The permutation of the rows after \<open>n\<close> rounds.\<close>

fun swaps :: "nat list \<Rightarrow> nat list \<Rightarrow> nat \<Rightarrow> nat \<Rightarrow> nat" where
  "swaps rs cs 0 = id"
| "swaps rs cs (Suc n) = swaps rs cs n \<circ> swap_ix (rs ! n) (cs ! n)"

lemma swaps_update: "n \<le> l \<Longrightarrow> swaps (rs[l := r]) (cs[l := c]) n = swaps rs cs n"
  by (induction n) auto

lemma swaps_less: "(\<And>l. l < n \<Longrightarrow> rs ! l < k \<and> cs ! l < k) \<Longrightarrow> i < k \<Longrightarrow> swaps rs cs n i < k"
  by (induction n arbitrary: i) (auto simp: swap_ix_less)

lemma swaps_inj: "inj (swaps rs cs n)"
proof (induction n)
  case (Suc n)
  have "inj (swap_ix r c)" for r c by (metis injI swap_ix_swap_ix)
  then show ?case using Suc unfolding swaps.simps by (intro inj_compose) auto
qed simp

definition gj_inv :: "nat \<Rightarrow> (nat \<Rightarrow> nat \<Rightarrow> gf256) \<Rightarrow> nat \<Rightarrow> gj_state \<Rightarrow> bool" where
  "gj_inv k A0 n st \<longleftrightarrow> length (gj_src st) = k * k \<and> length (gj_ipiv st) = k \<and>
     length (gj_indxr st) = k \<and> length (gj_indxc st) = k \<and>
     (\<forall>i<k. gj_ipiv st ! i \<le> 1) \<and> card {i. i < k \<and> gj_ipiv st ! i = 1} = n \<and>
     (\<forall>l<n. gj_indxr st ! l < k \<and> gj_indxc st ! l < k) \<and>
     exch k A0 (\<lambda>i. gj_ipiv st ! i = 1) (swaps (gj_indxr st) (gj_indxc st) n) (mat k (gj_src st))"

lemma invert_mat_col_inv:
  assumes inv: "gj_inv k A0 n st" and n: "n < k" and step: "invert_mat_col k n st = Some st'"
  shows "gj_inv k A0 (Suc n) st'"
proof -
  obtain r c where piv: "find_pivot (gj_src st) (gj_ipiv st) k n = Pivot r c"
    using step by (auto simp: invert_mat_col_def split: pivot.splits)
  have len: "length (gj_src st) = k * k" and ip: "\<And>i. i < k \<Longrightarrow> gj_ipiv st ! i \<le> 1"
    using inv by (auto simp: gj_inv_def)
  have rc: "r < k" "c < k" "gj_ipiv st ! r = 0" "gj_ipiv st ! c = 0" "gj_src st ! (r * k + c) \<noteq> 0"
    using find_pivot_spec[OF piv n ip] by auto
  define m where "m = (if r \<noteq> c then swap_rows k r c (gj_src st) else gj_src st)"
  have lm: "length m = k * k" using len rc by (simp add: m_def swap_rows_spec)
  have mm: "mat k m i j = mat k (gj_src st) (swap_ix r c i) j" if "i < k" "j < k" for i j
    using that len rc by (simp add: m_def swap_rows_spec swap_ix_def)
  have nz: "mat k m c c \<noteq> 0" using mm[OF rc(2,2)] rc(5) by (auto simp: swap_ix_def mat_def)
  have st': "st' = \<lparr>gj_src = eliminate k c (normalise_row k c m), gj_ipiv = (gj_ipiv st)[c := 1],
      gj_indxr = (gj_indxr st)[n := r], gj_indxc = (gj_indxc st)[n := c]\<rparr>"
    using step nz by (auto simp: invert_mat_col_def piv m_def rc Let_def mat_def split: if_splits)
  let ?P = "\<lambda>i. gj_ipiv st ! i = 1" and ?\<rho> = "swaps (gj_indxr st) (gj_indxc st) n"
  have "exch k A0 ?P (?\<rho> \<circ> swap_ix r c) (\<lambda>i. mat k (gj_src st) (swap_ix r c i))"
    using inv rc by (intro exch_swap) (auto simp: gj_inv_def)
  then have "exch k A0 ?P (?\<rho> \<circ> swap_ix r c) (mat k m)" by (rule exch_cong) (simp_all add: mm)
  then have "exch k A0 (?P(c := True)) (?\<rho> \<circ> swap_ix r c) (sweep c (mat k m))"
    using rc nz by (intro exch_sweep) auto
  then have ex: "exch k A0 (\<lambda>i. (gj_ipiv st)[c := 1] ! i = 1) (?\<rho> \<circ> swap_ix r c) (mat k (eliminate k c (normalise_row k c m)))"
    by (rule exch_cong)
      (use rc inv in \<open>auto simp: eliminate_sweep[OF lm rc(2) nz] nth_list_update gj_inv_def\<close>)
  have "{i. i < k \<and> (gj_ipiv st)[c := 1] ! i = 1} = insert c {i. i < k \<and> gj_ipiv st ! i = 1}"
    using rc inv by (auto simp: nth_list_update gj_inv_def split: if_splits)
  then have "card {i. i < k \<and> (gj_ipiv st)[c := 1] ! i = 1} = Suc n"
    using inv rc by (simp add: gj_inv_def)
  then show ?thesis
    using inv ex n rc ip unfolding gj_inv_def st'
    by (auto simp: eliminate_sweep[OF lm rc(2) nz] nth_list_update swaps_update less_Suc_eq)
qed

lemma invert_mat_col_total:
  assumes inv: "gj_inv k A0 n st" and n: "n < k" and onto: "lin_onto k A0"
  shows "\<exists>st'. invert_mat_col k n st = Some st'"
proof -
  have "\<exists>r<k. gj_ipiv st ! r \<noteq> 1"
  proof (rule ccontr)
    assume "\<not> ?thesis"
    then have "{i. i < k \<and> gj_ipiv st ! i = 1} = {..<k}" by auto
    then show False using inv n by (simp add: gj_inv_def)
  qed
  then obtain r where r: "r < k" "gj_ipiv st ! r \<noteq> 1" by blast
  have ip: "\<And>i. i < k \<Longrightarrow> gj_ipiv st ! i \<le> 1" and len: "length (gj_src st) = k * k"
    using inv by (auto simp: gj_inv_def)
  obtain c where c: "c < k" "gj_ipiv st ! c \<noteq> 1" "mat k (gj_src st) r c \<noteq> 0"
    using exch_pivot[of k A0 "\<lambda>i. gj_ipiv st ! i = 1" "swaps (gj_indxr st) (gj_indxc st) n" "mat k (gj_src st)" r]
      inv onto r swaps_less[of n "gj_indxr st" k "gj_indxc st"] inj_on_subset[OF swaps_inj]
    unfolding gj_inv_def by blast
  moreover have "gj_ipiv st ! c = 0" using c ip[of c] by auto
  ultimately obtain r' c' where piv: "find_pivot (gj_src st) (gj_ipiv st) k n = Pivot r' c'"
    using find_pivot_total[of k "gj_ipiv st" r c "gj_src st" n] ip r by (auto simp: mat_def)
  then have rc: "r' < k" "c' < k" "gj_src st ! (r' * k + c') \<noteq> 0"
    using find_pivot_spec[OF piv n ip] by auto
  have "r' \<noteq> c' \<Longrightarrow> swap_rows k r' c' (gj_src st) ! (c' * k + c') \<noteq> 0"
    using rc swap_rows_spec(2)[OF len rc(1,2) rc(2,2)] by (simp add: mat_def)
  then show ?thesis using rc by (auto simp: invert_mat_col_def piv Let_def)
qed

text \<open>The final column swaps undo the row permutation.\<close>

lemma lin_unswap:
  assumes "\<And>j. j < k \<Longrightarrow> B i j = A i (swap_ix r c j)" "r < k" "c < k"
  shows "lin k B (\<lambda>j. y (swap_ix r c j)) i = lin k A y i"
proof -
  have "lin k B (\<lambda>j. y (swap_ix r c j)) i = (\<Sum>j<k. A i (swap_ix r c j) * y (swap_ix r c j))"
    using assms(1) by (simp add: lin_def)
  also have "\<dots> = lin k A y i"
    unfolding lin_def
    by (rule sum.reindex_bij_witness[where i = "swap_ix r c" and j = "swap_ix r c"])
      (use assms swap_ix_less in auto)
  finally show ?thesis .
qed

lemma unswap_cols:
  assumes "length m = k * k" "n \<le> k" "\<And>l. l < n \<Longrightarrow> rs ! l < k \<and> cs ! l < k"
    and "\<And>x i. i < k \<Longrightarrow> x i = lin k (mat k m) (\<lambda>j. lin k A0 x (swaps rs cs n j)) i"
  defines "m' \<equiv> fold (unswap_col k rs cs) (rev [0..<n]) m"
  shows "length m' = k * k \<and> (\<forall>x. \<forall>i<k. x i = lin k (mat k m') (lin k A0 x) i)"
  using assms(1-4) unfolding m'_def
proof (induction n arbitrary: m)
  case (Suc n)
  let ?r = "rs ! n" and ?c = "cs ! n"
  let ?m = "unswap_col k rs cs n m"
  have rc: "?r < k" "?c < k" using Suc.prems(3) by auto
  have len: "length ?m = k * k" using Suc.prems(1) rc by (simp add: unswap_col_def swap_cols_spec)
  have mm: "mat k ?m i j = mat k m i (swap_ix ?r ?c j)" if "i < k" "j < k" for i j
    using that Suc.prems(1) rc by (simp add: unswap_col_def swap_cols_spec swap_ix_def)
  have "x i = lin k (mat k ?m) (\<lambda>j. lin k A0 x (swaps rs cs n j)) i" if i: "i < k" for x i
  proof -
    have "lin k (mat k ?m) (\<lambda>j. (\<lambda>l. lin k A0 x (swaps rs cs (Suc n) l)) (swap_ix ?r ?c j)) i =
        lin k (mat k m) (\<lambda>l. lin k A0 x (swaps rs cs (Suc n) l)) i"
      using mm i rc by (intro lin_unswap) auto
    then show ?thesis using Suc.prems(4)[OF i, of x] by simp
  qed
  then have "length (fold (unswap_col k rs cs) (rev [0..<n]) ?m) = k * k \<and>
      (\<forall>x. \<forall>i<k. x i = lin k (mat k (fold (unswap_col k rs cs) (rev [0..<n]) ?m)) (lin k A0 x) i)"
    using Suc.prems(2,3) len by (intro Suc.IH) auto
  then show ?case by simp
qed simp

lemma gj_inv_init:
  "length src = k * k \<Longrightarrow> gj_inv k (mat k src) 0
    \<lparr>gj_src = src, gj_ipiv = replicate k 0, gj_indxr = replicate k 0, gj_indxc = replicate k 0\<rparr>"
proof -
  assume "length src = k * k"
  moreover have "exch k (mat k src) (\<lambda>i. replicate k 0 ! i = Suc 0) id (mat k src)"
    by (rule exch_cong[OF exch_init]) auto
  ultimately show ?thesis by (auto simp: gj_inv_def)
qed

theorem invert_mat_sound:
  assumes len: "length src = k * k" and inv: "invert_mat src k = Some m"
  shows "length m = k * k \<and> (\<forall>x. \<forall>i<k. lin k (mat k m) (lin k (mat k src) x) i = x i)"
proof -
  from inv obtain st where st: "fold_option (invert_mat_col k) [0..<k]
      \<lparr>gj_src = src, gj_ipiv = replicate k 0, gj_indxr = replicate k 0, gj_indxc = replicate k 0\<rparr> = Some st"
    and m: "m = fold (unswap_col k (gj_indxr st) (gj_indxc st)) (rev [0..<k]) (gj_src st)"
    by (auto simp: invert_mat_def split: option.splits)
  have gj: "gj_inv k (mat k src) k st"
    by (rule fold_option_upt_invariant[OF st, where P = "gj_inv k (mat k src)"])
      (auto simp: gj_inv_init len invert_mat_col_inv)
  then have "{i. i < k \<and> gj_ipiv st ! i = 1} = {..<k}"
    by (intro card_subset_eq) (auto simp: gj_inv_def)
  then have all: "gj_ipiv st ! i = 1" if "i < k" for i using that by blast
  have fin: "x i = lin k (mat k (gj_src st)) (\<lambda>j. lin k (mat k src) x (swaps (gj_indxr st) (gj_indxc st) k j)) i"
    if i: "i < k" for x i
  proof -
    have "exch k (mat k src) (\<lambda>i. gj_ipiv st ! i = 1) (swaps (gj_indxr st) (gj_indxc st) k) (mat k (gj_src st))"
      using gj by (simp add: gj_inv_def)
    then have "x i = lin k (mat k (gj_src st)) (\<lambda>j. if gj_ipiv st ! j = 1
        then lin k (mat k src) x (swaps (gj_indxr st) (gj_indxc st) k j) else x j) i"
      unfolding exch_def by (elim allE[of _ x] allE[of _ i]) (use i all[OF i] in simp)
    also have "\<dots> = lin k (mat k (gj_src st)) (\<lambda>j. lin k (mat k src) x (swaps (gj_indxr st) (gj_indxc st) k j)) i"
      by (rule lin_cong) (auto simp: all)
    finally show ?thesis .
  qed
  have "length m = k * k \<and> (\<forall>x. \<forall>i<k. x i = lin k (mat k m) (lin k (mat k src) x) i)"
    unfolding m by (rule unswap_cols) (use gj fin in \<open>auto simp: gj_inv_def\<close>)
  then show ?thesis by simp
qed

theorem invert_mat_complete:
  assumes len: "length src = k * k" and inj: "lin_inj k (mat k src)"
  shows "\<exists>m. invert_mat src k = Some m"
proof -
  have onto: "lin_onto k (mat k src)" using inj by (rule lin_inj_onto)
  have "\<exists>st. fold_option (invert_mat_col k) [0..<k]
      \<lparr>gj_src = src, gj_ipiv = replicate k 0, gj_indxr = replicate k 0, gj_indxc = replicate k 0\<rparr> = Some st"
  proof (rule fold_option_upt_total[where P = "gj_inv k (mat k src)"])
    fix i s assume i: "i < k" and g: "gj_inv k (mat k src) i s"
    from invert_mat_col_total[OF g i onto] obtain s' where s': "invert_mat_col k i s = Some s'" ..
    then show "\<exists>s'. invert_mat_col k i s = Some s' \<and> gj_inv k (mat k src) (Suc i) s'"
      using invert_mat_col_inv[OF g i s'] by blast
  qed (simp_all add: gj_inv_init[OF len])
  then show ?thesis by (auto simp: invert_mat_def)
qed

section \<open>The Vandermonde inversion inverts\<close>

lemma vdm_coeff_step_spec:
  assumes len: "length c = k" and i: "1 \<le> i" "i < k"
  shows "length (vdm_coeff_step k p i c) = k"
    and "j < k \<Longrightarrow> GF (vdm_coeff_step k p i c ! j) = GF (c ! j) +
      (if j = k - 1 then GF (p ! i) else if k - i \<le> j then GF (p ! i) * GF (c ! (j + 1)) else 0)"
proof -
  define P where "P n c' \<longleftrightarrow> length c' = k \<and> (\<forall>j<k. c' ! j =
    (if k - i \<le> j \<and> j < n then c ! j XOR gf_mul (p ! i) (c ! (j + 1)) else c ! j))" for n c'
  have lo: "k - 1 - (i - 1) = k - i" using i by simp
  have "P (k - 1) (fold (\<lambda>j c. c[j := c ! j XOR gf_mul (p ! i) (c ! (j + 1))]) [k - i..<k - 1] c)"
    by (rule fold_upt_invariant [where P = P])
      (use len i in \<open>auto simp: P_def nth_list_update less_Suc_eq\<close>)
  then show "length (vdm_coeff_step k p i c) = k"
    and "j < k \<Longrightarrow> GF (vdm_coeff_step k p i c ! j) = GF (c ! j) +
      (if j = k - 1 then GF (p ! i) else if k - i \<le> j then GF (p ! i) * GF (c ! (j + 1)) else 0)"
    unfolding vdm_coeff_step_def lo using i by (auto simp: P_def Let_def nth_list_update)
qed

text \<open>After the step with index \<open>n - 1\<close> the array holds, right-aligned, the coefficients of the monic
  polynomial with roots \<^verbatim>\<open>p[1]\<close> to \<^verbatim>\<open>p[n - 1]\<close>.\<close>

definition vdm_poly :: "nat \<Rightarrow> nat \<Rightarrow> bytes \<Rightarrow> gf256 \<Rightarrow> gf256" where
  "vdm_poly k n c z = z ^ (n - 1) + (\<Sum>j<n - 1. GF (c ! (k - (n - 1) + j)) * z ^ j)"

lemma vdm_poly_step:
  assumes len: "length c = k" and n: "1 \<le> n" "n < k" and zero: "c ! (k - n) = 0"
  shows "vdm_poly k (Suc n) (vdm_coeff_step k p n c) z = (z - GF (p ! n)) * vdm_poly k n c z"
proof -
  obtain m where m: "n = Suc m" using n by (cases n) auto
  let ?q = "GF (p ! n)" and ?C = "\<lambda>j. GF (c ! (k - n + j))"
  let ?D = "\<lambda>j. GF (vdm_coeff_step k p n c ! (k - n + j))"
  have top: "?D m = ?C m + ?q"
    using vdm_coeff_step_spec(2)[OF len n, of "k - n + m"] n m by simp
  have low: "?D j = ?C j + ?q * ?C (Suc j)" if "j < m" for j
  proof -
    have "k - n + j < k" "k - n + j \<noteq> k - 1" using n m that by linarith+
    then show ?thesis using vdm_coeff_step_spec(2)[OF len n, of "k - n + j" p] by simp
  qed
  have sh: "k - m + j = k - n + Suc j" for j using n m by simp
  have c0: "?C 0 = 0" using zero by simp
  define S where "S = (\<Sum>j<m. ?C (Suc j) * z ^ j)"
  have "vdm_poly k (Suc n) (vdm_coeff_step k p n c) z = z ^ n + ((\<Sum>j<m. ?D j * z ^ j) + ?D m * z ^ m)"
    by (simp add: vdm_poly_def m)
  also have "(\<Sum>j<m. ?D j * z ^ j) = (\<Sum>j<m. ?C j * z ^ j) + ?q * (\<Sum>j<m. ?C (Suc j) * z ^ j)"
    unfolding sum_distrib_left sum.distrib [symmetric]
    by (rule sum.cong) (use low in \<open>auto simp: algebra_simps\<close>)
  also have "(\<Sum>j<m. ?C j * z ^ j) = z * (\<Sum>j<m. ?C (Suc j) * z ^ j) - ?C m * z ^ m"
  proof -
    have "(\<Sum>j<m. ?C j * z ^ j) + ?C m * z ^ m = (\<Sum>j<Suc m. ?C j * z ^ j)" by simp
    also have "\<dots> = ?C 0 + (\<Sum>j<m. ?C (Suc j) * z ^ Suc j)" by (subst sum.lessThan_Suc_shift) simp
    also have "\<dots> = z * (\<Sum>j<m. ?C (Suc j) * z ^ j)" using c0 by (simp add: sum_distrib_left ac_simps)
    finally show ?thesis by (simp add: eq_diff_eq)
  qed
  finally have new: "vdm_poly k (Suc n) (vdm_coeff_step k p n c) z =
      z ^ n + (z * S - ?C m * z ^ m + ?q * S + ?D m * z ^ m)" by (simp only: S_def)
  have "vdm_poly k n c z = z ^ m + S" unfolding vdm_poly_def S_def m by (simp add: sh [unfolded m])
  then show ?thesis unfolding new top by (simp add: m algebra_simps)
qed

lemma vdm_coeffs_spec:
  assumes k: "1 < k" and p0: "p ! 0 = 0"
  shows "length (vdm_coeffs k p) = k \<and> (\<forall>l<k. 0 < l \<longrightarrow> vdm_poly k k (vdm_coeffs k p) (GF (p ! l)) = 0)"
proof -
  define P where "P n c \<longleftrightarrow> length c = k \<and> (\<forall>j \<le> k - n. j < k \<longrightarrow> c ! j = 0) \<and>
    (\<forall>l<n. 0 < l \<longrightarrow> vdm_poly k n c (GF (p ! l)) = 0)" for n c
  have "P k (vdm_coeffs k p)"
    unfolding vdm_coeffs_def
  proof (rule fold_upt_invariant [where P = P])
    show "P 1 ((replicate k 0)[k - 1 := p ! 0])"
      using k p0 by (auto simp: P_def nth_list_update)
    fix n c assume n: "1 \<le> n" "n < k" and P: "P n c"
    then have len: "length c = k" and z: "c ! (k - n) = 0" by (auto simp: P_def)
    have "vdm_coeff_step k p n c ! j = 0" if "j \<le> k - Suc n" for j
    proof -
      have "GF (vdm_coeff_step k p n c ! j) = GF (c ! j)"
        using vdm_coeff_step_spec(2)[OF len n, of j p] that n by auto
      then show ?thesis using P that n by (simp add: P_def)
    qed
    moreover have "vdm_poly k (Suc n) (vdm_coeff_step k p n c) (GF (p ! l)) = 0" if "l < Suc n" "0 < l" for l
      using vdm_poly_step[OF len n z, of p "GF (p ! l)"] P that by (auto simp: P_def less_Suc_eq)
    ultimately show "P (Suc n) (vdm_coeff_step k p n c)"
      using vdm_coeff_step_spec(1)[OF len n] by (simp add: P_def)
  qed (use k in auto)
  then show ?thesis by (simp add: P_def)
qed

lemma vdm_divide_spec:
  assumes k: "1 < k" and div: "vdm_divide k c xx = (b, t)"
  shows "length b = k" "b ! (k - 1) = 1" "\<And>i. i < k - 1 \<Longrightarrow> GF (b ! i) = GF (c ! (i + 1)) + GF xx * GF (b ! (i + 1))"
    "GF t = (\<Sum>i<k. GF (b ! i) * GF xx ^ i)"
proof -
  define P where "P n s \<longleftrightarrow> (case s of (b, t) \<Rightarrow> length b = k \<and> b ! (k - 1) = 1 \<and>
    (\<forall>i<k - 1. n \<le> i \<longrightarrow> GF (b ! i) = GF (c ! (i + 1)) + GF xx * GF (b ! (i + 1))) \<and>
    GF t = (\<Sum>i<k - n. GF (b ! (n + i)) * GF xx ^ i))" for n s
  have "P 0 (vdm_divide k c xx)"
    unfolding vdm_divide_def
  proof (rule fold_downto_invariant [where P = P])
    have "k - (k - 1) = 1" using k by simp
    then show "P (k - 1) ((replicate k 0)[k - 1 := 1], 1)" using k by (simp add: P_def)
    fix i s assume i: "i < k - 1" and "P (Suc i) s"
    obtain b t where s: "s = (b, t)" by (cases s)
    with \<open>P (Suc i) s\<close> have len: "length b = k" and t: "GF t = (\<Sum>j<k - Suc i. GF (b ! (Suc i + j)) * GF xx ^ j)"
      by (auto simp: P_def)
    let ?b = "b[i := c ! (i + 1) XOR gf_mul xx (b ! (i + 1))]"
    have "k - i = Suc (k - Suc i)" using i by simp
    then have "(\<Sum>j<k - i. GF (?b ! (i + j)) * GF xx ^ j) = GF (?b ! i) + GF xx * GF t"
      unfolding t by (simp only: sum.lessThan_Suc_shift) (simp add: sum_distrib_left ac_simps)
    then show "P i (case s of (b, t) \<Rightarrow> let b = b[i := c ! (i + 1) XOR gf_mul xx (b ! (i + 1))] in (b, gf_mul xx t XOR b ! i))"
      using i \<open>P (Suc i) s\<close> len unfolding s P_def Let_def by (auto simp: nth_list_update add.commute)
  qed
  then show "length b = k" "b ! (k - 1) = 1" "\<And>i. i < k - 1 \<Longrightarrow> GF (b ! i) = GF (c ! (i + 1)) + GF xx * GF (b ! (i + 1))"
    "GF t = (\<Sum>i<k. GF (b ! i) * GF xx ^ i)"
    by (auto simp: P_def div)
qed

text \<open>With the leading 1 and the constant 0 put back, the coefficients are those of a polynomial that
  vanishes at every point, and \<open>vdm_divide\<close> yields the Lagrange polynomial of its point.\<close>

definition vdm_full :: "nat \<Rightarrow> bytes \<Rightarrow> nat \<Rightarrow> gf256" where
  "vdm_full k c j = (if j = 0 then 0 else if j < k then GF (c ! j) else 1)"

lemma vdm_full_root:
  assumes k: "1 < k" and p0: "p ! 0 = 0" and l: "l < k"
  shows "(\<Sum>j<Suc k. vdm_full k (vdm_coeffs k p) j * GF (p ! l) ^ j) = 0"
proof -
  let ?a = "vdm_full k (vdm_coeffs k p)" and ?c = "vdm_coeffs k p" and ?z = "GF (p ! l)"
  obtain m where m: "k = Suc m" using k by (cases k) auto
  have "(\<Sum>j<Suc k. ?a j * ?z ^ j) = (\<Sum>j<k. ?a j * ?z ^ j) + ?z ^ k" using k by (simp add: vdm_full_def)
  also have "(\<Sum>j<k. ?a j * ?z ^ j) = (\<Sum>j<m. GF (?c ! Suc j) * ?z ^ Suc j)"
    unfolding m sum.lessThan_Suc_shift by (simp add: vdm_full_def)
  finally have "(\<Sum>j<Suc k. ?a j * ?z ^ j) = ?z * vdm_poly k k ?c ?z"
    by (simp add: vdm_poly_def m sum_distrib_left algebra_simps)
  moreover have "l = 0 \<or> vdm_poly k k ?c ?z = 0" using vdm_coeffs_spec[OF k p0] l by blast
  ultimately show ?thesis using p0 by auto
qed

lemma vdm_divide_lagrange:
  assumes k: "1 < k" and p0: "p ! 0 = 0" and r: "r < k"
    and dist: "inj_on (\<lambda>i. GF (p ! i)) {..<k}"
    and d: "vdm_divide k (vdm_coeffs k p) (p ! r) = (b, t)"
  shows "l < k \<Longrightarrow> (\<Sum>s<k. GF (b ! s) * GF (p ! l) ^ s) = (if l = r then GF t else 0)" and "GF t \<noteq> 0"
proof -
  note D = vdm_divide_spec[OF k d]
  let ?a = "vdm_full k (vdm_coeffs k p)" and ?p = "\<lambda>i. GF (p ! i)"
  define q where "q s = (if s < k then GF (b ! s) else 0)" for s
  have rec: "q s = ?a (Suc s) + ?p r * q (Suc s)" if "s < k" for s
  proof (cases "s = k - 1")
    case True
    then show ?thesis using D(2) k by (simp add: q_def vdm_full_def)
  next
    case False
    then have "Suc s < k" "s < k - 1" using \<open>s < k\<close> by auto
    then show ?thesis using D(3)[of s] by (simp add: q_def vdm_full_def)
  qed
  have "(\<Sum>s<k. q s * z ^ s) = (\<Sum>s<k. GF (b ! s) * z ^ s)" for z by (simp add: q_def)
  with synthetic_division[of k q ?a "?p r", OF rec]
  have syn: "(\<Sum>j<Suc k. ?a j * z ^ j) = (z - ?p r) * (\<Sum>s<k. GF (b ! s) * z ^ s) + (?a 0 + ?p r * q 0)" for z
    by (simp add: q_def)
  have rem: "?a 0 + ?p r * q 0 = 0" using syn[of "?p r"] vdm_full_root[OF k p0 r] by simp
  have quot: "(\<Sum>s<k. GF (b ! s) * ?p l ^ s) = (if l = r then GF t else 0)" if "l < k" for l
  proof (cases "l = r")
    case False
    then have "?p l - ?p r \<noteq> 0" using inj_onD[OF dist, of l r] that r by auto
    then show ?thesis using syn[of "?p l"] rem vdm_full_root[OF k p0 that] False by simp
  qed (use D(4) in simp)
  show "GF t \<noteq> 0"
  proof
    assume "GF t = 0"
    then have "(\<Sum>s<k. GF (b ! s) * ?p l ^ s) = 0" if "l < k" for l using quot[OF that] by simp
    from many_roots_zero[OF dist this, of "k - 1"] k have "GF (b ! (k - 1)) = 0" by simp
    then show False using D(2) by simp
  qed
  show "l < k \<Longrightarrow> (\<Sum>s<k. GF (b ! s) * GF (p ! l) ^ s) = (if l = r then GF t else 0)" by (rule quot)
qed

lemma invert_vdm_entries:
  assumes k: "1 < k" and len: "k * k \<le> length src"
  defines "d \<equiv> \<lambda>r. vdm_divide k (vdm_coeffs k (vdm_points src k)) (vdm_points src k ! r)"
  shows "length (invert_vdm src k) = length src \<and> drop (k * k) (invert_vdm src k) = drop (k * k) src \<and>
    (\<forall>s<k. \<forall>r<k. invert_vdm src k ! (s * k + r) = gf_mul (gf_inv (snd (d r))) (fst (d r) ! s))"
proof -
  let ?e = "\<lambda>s r. gf_mul (gf_inv (snd (d r))) (fst (d r) ! s)"
  define Q where "Q row n m \<longleftrightarrow> length m = length src \<and> drop (k * k) m = drop (k * k) src \<and>
    (\<forall>s<k. \<forall>r<k. r < row \<or> r = row \<and> s < n \<longrightarrow> m ! (s * k + r) = ?e s r)" for row n m
  have inner: "Q row k (fold (\<lambda>col m. m[col * k + row := ?e col row]) [0..<k] m)"
    if "row < k" "Q row 0 m" for row m
  proof (rule fold_upt_invariant [where P = "Q row"])
    fix n m assume n: "n < k" "Q row n m"
    have "n * k + row < k * k" using row_col_less[OF n(1) that(1)] .
    then show "Q row (Suc n) (m[n * k + row := ?e n row])"
      using n that(1) len unfolding Q_def by (auto simp: nth_list_update row_col_inject less_Suc_eq)
  qed (use that in auto)
  have "Q k 0 (fold (\<lambda>row m. fold (\<lambda>col m. m[col * k + row := ?e col row]) [0..<k] m) [0..<k] src)"
  proof (rule fold_upt_invariant [where P = "\<lambda>row. Q row 0"])
    fix row m assume "row < k" "Q row 0 m"
    from inner[OF this] show "Q (Suc row) 0 (fold (\<lambda>col m. m[col * k + row := ?e col row]) [0..<k] m)"
      unfolding Q_def by (auto simp: less_Suc_eq)
  qed (auto simp: Q_def)
  moreover have "invert_vdm src k = fold (\<lambda>row m. fold (\<lambda>col m. m[col * k + row := ?e col row]) [0..<k] m) [0..<k] src"
    using k by (simp add: invert_vdm_def Let_def d_def case_prod_beta)
  ultimately show ?thesis by (simp add: Q_def)
qed

theorem invert_vdm_correct:
  assumes k: "1 < k" and len: "k * k \<le> length src" and p0: "src ! 1 = 0"
    and dist: "inj_on (\<lambda>i. mat k src i 1) {..<k}" and i: "i < k"
  shows "lin k (vdm (\<lambda>i. mat k src i 1)) (lin k (mat k (invert_vdm src k)) x) i = x i"
proof -
  define p where "p = vdm_points src k"
  define B T where "B r = fst (vdm_divide k (vdm_coeffs k p) (p ! r))"
    and "T r = snd (vdm_divide k (vdm_coeffs k p) (p ! r))" for r
  let ?p = "\<lambda>i. mat k src i 1" and ?W = "mat k (invert_vdm src k)"
  have pt: "GF (p ! i) = ?p i" if "i < k" for i
    using that by (simp add: p_def vdm_points_def mat_def add.commute)
  have p_0: "p ! 0 = 0" using pt[of 0] p0 k by (simp add: mat_def)
  have dist': "inj_on (\<lambda>i. GF (p ! i)) {..<k}" using dist pt by (auto simp: inj_on_def)
  have lag: "l < k \<Longrightarrow> (\<Sum>s<k. GF (B r ! s) * ?p l ^ s) = (if l = r then GF (T r) else 0)" "GF (T r) \<noteq> 0"
    if "r < k" for l r
    using vdm_divide_lagrange[OF k p_0 that dist', of "B r" "T r"] pt by (simp_all add: B_def T_def)
  have "(\<Sum>s<k. vdm ?p l s * ?W s r) = (if r = l then 1 else 0)" if "l < k" "r < k" for l r
  proof -
    have "(\<Sum>s<k. vdm ?p l s * ?W s r) = inverse (GF (T r)) * (\<Sum>s<k. GF (B r ! s) * ?p l ^ s)"
      unfolding sum_distrib_left
      by (rule sum.cong)
        (use invert_vdm_entries[OF k len] that in \<open>auto simp: vdm_def mat_def B_def T_def p_def\<close>)
    then show ?thesis using lag(1)[OF that(2) that(1)] left_inverse[OF lag(2)[OF that(2)]] by auto
  qed
  then show ?thesis using i by (simp add: lin_lin lin_unit_row[where l = i])
qed

end
