(* ===== verification/Fec_Codec.thy ===== *)
theory Fec_Codec
  imports Fec_Matrix
begin

text \<open>
  The erasure codec: \<^verbatim>\<open>fec_new\<close>, \<^verbatim>\<open>fec_encode\<close>, \<^verbatim>\<open>shuffle\<close>, \<^verbatim>\<open>build_decode_matrix\<close> and \<^verbatim>\<open>fec_decode\<close>
  of \<^verbatim>\<open>src/ref/UDPspeeder/lib/fec.cpp\<close>, and the wrappers of \<^verbatim>\<open>src/ref/UDPspeeder/lib/rs.cpp\<close>. A packet
  is the byte list its pointer points to; packets never share a buffer in the callers, so moving
  pointers is moving lists. A null pointer is \<open>None\<close>. Memory the code allocates and fills before
  reading starts out as zeros.
\<close>

section \<open>The code descriptor\<close>

record fec_parms =
  fec_k :: nat
  fec_n :: nat
  enc_matrix :: bytes

definition fec_new_powers :: "nat \<Rightarrow> nat \<Rightarrow> bytes" where
  "fec_new_powers k n =
    (let tmp_m = (replicate (n * k) 0)[0 := 1];
         tmp_m = fold (\<lambda>col m. m[col := 0]) [1..<k] tmp_m
     in fold (\<lambda>row. fold (\<lambda>col m. m[(row + 1) * k + col := gf_exp gf_tab ! unat (modnn (row * col))]) [0..<k])
          [0..<n - 1] tmp_m)"

definition fec_new :: "nat \<Rightarrow> nat \<Rightarrow> fec_parms option" where
  "fec_new k n =
    (if k > GF_SIZE + 1 \<or> n > GF_SIZE + 1 \<or> k > n then None
     else (let tmp_m = invert_vdm (fec_new_powers k n) k;
               bottom = matmul (drop (k * k) tmp_m) tmp_m (n - k) k k (replicate ((n - k) * k) 0);
               enc = replicate (k * k) 0 @ bottom;
               enc = fold (\<lambda>col m. m[col * (k + 1) := 1]) [0..<k] enc
           in Some \<lparr>fec_k = k, fec_n = n, enc_matrix = enc\<rparr>))"

definition get_n :: "fec_parms \<Rightarrow> nat" where
  "get_n code = fec_n code"

definition get_k :: "fec_parms \<Rightarrow> nat" where
  "get_k code = fec_k code"

section \<open>Encoding and decoding\<close>

definition fec_encode :: "fec_parms \<Rightarrow> bytes list \<Rightarrow> bytes \<Rightarrow> nat \<Rightarrow> nat \<Rightarrow> bytes" where
  "fec_encode code src fec index sz =
    (let k = fec_k code in
     if index < k then overwrite 0 (take sz (src ! index)) fec
     else if index < fec_n code then
       fold (\<lambda>i fec. addmul fec (src ! i) (enc_matrix code ! (index * k + i)) sz) [0..<k]
         (overwrite 0 (replicate sz 0) fec)
     else fec)"

text \<open>Each swap puts one more packet into its own place.\<close>

definition fixed_places :: "nat list \<Rightarrow> nat set" where
  "fixed_places index = {j. j < length index \<and> index ! j = j}"

lemma fixed_places_swap:
  assumes "i < length index" "c < length index" "index ! i = c" "c \<noteq> i" "index ! c \<noteq> c"
  shows "fixed_places index \<subset> fixed_places (swap_nth i c index)"
proof -
  have "fixed_places index \<subseteq> fixed_places (swap_nth i c index)"
    using assms by (auto simp: fixed_places_def nth_swap_nth)
  moreover have "c \<in> fixed_places (swap_nth i c index)" "c \<notin> fixed_places index"
    using assms by (auto simp: fixed_places_def nth_swap_nth)
  ultimately show ?thesis by blast
qed

lemma card_fixed_places_swap:
  assumes "i < length index" "c < length index" "index ! i = c" "c \<noteq> i" "index ! c \<noteq> c"
  shows "length index - card (fixed_places (swap_nth i c index)) < length index - card (fixed_places index)"
proof -
  have "card (fixed_places index) < card (fixed_places (swap_nth i c index))"
    using fixed_places_swap[OF assms] by (intro psubset_card_mono) (auto simp: fixed_places_def)
  moreover have "fixed_places (swap_nth i c index) \<subseteq> {..<length index}" by (auto simp: fixed_places_def)
  from card_mono[OF _ this] have "card (fixed_places (swap_nth i c index)) \<le> length index" by simp
  ultimately show ?thesis by linarith
qed

text \<open>The result is the return code with the two arrays; \<open>None\<close> is an access outside an array.\<close>

function shuffle_loop :: "nat \<Rightarrow> nat \<Rightarrow> 'p list \<Rightarrow> nat list \<Rightarrow> (nat \<times> 'p list \<times> nat list) option" where
  "shuffle_loop k i pkt index =
    (if i < k then
       (if length index \<le> i then None
        else if index ! i \<ge> k \<or> index ! i = i then shuffle_loop k (i + 1) pkt index
        else (let c = index ! i in
          if length index \<le> c then None
          else if index ! c = c then Some (1, pkt, index)
          else shuffle_loop k i (swap_nth i c pkt) (swap_nth i c index)))
     else Some (0, pkt, index))"
  by pat_completeness auto
termination
  by (relation "measures [\<lambda>(k, i, pkt, index). length index - card (fixed_places index), \<lambda>(k, i, pkt, index). k - i]")
    (auto simp: card_fixed_places_swap)

declare shuffle_loop.simps [simp del]

definition shuffle :: "'p list \<Rightarrow> nat list \<Rightarrow> nat \<Rightarrow> (nat \<times> 'p list \<times> nat list) option" where
  "shuffle pkt index k = shuffle_loop k 0 pkt index"

definition decode_row :: "fec_parms \<Rightarrow> nat list \<Rightarrow> nat \<Rightarrow> bytes \<Rightarrow> bytes option" where
  "decode_row code index i matrix =
    (let k = fec_k code in
     if index ! i < k then Some (overwrite (i * k) ((replicate k 0)[i := 1]) matrix)
     else if index ! i < fec_n code then
       Some (overwrite (i * k) (take k (drop (index ! i * k) (enc_matrix code))) matrix)
     else None)"

definition build_decode_matrix :: "fec_parms \<Rightarrow> nat list \<Rightarrow> bytes option" where
  "build_decode_matrix code index =
    (let k = fec_k code in
     case fold_option (decode_row code index) [0..<k] (replicate (k * k) 0) of
       None \<Rightarrow> None
     | Some matrix \<Rightarrow> invert_mat matrix k)"

definition fec_decode :: "fec_parms \<Rightarrow> bytes list \<Rightarrow> nat list \<Rightarrow> nat \<Rightarrow> (nat \<times> bytes list \<times> nat list) option" where
  "fec_decode code pkt index sz =
    (let k = fec_k code in
     case shuffle pkt index k of
       None \<Rightarrow> None
     | Some (err, pkt, index) \<Rightarrow>
         if err \<noteq> 0 then Some (1, pkt, index)
         else (case build_decode_matrix code index of
            None \<Rightarrow> Some (1, pkt, index)
          | Some m_dec \<Rightarrow>
              (let new_pkt = map (\<lambda>row. if index ! row \<ge> k
                       then fold (\<lambda>col p. addmul p (pkt ! col) (m_dec ! (row * k + col)) sz) [0..<k] (replicate sz 0)
                       else []) [0..<k]
               in Some (0, fold (\<lambda>row p. if index ! row \<ge> k then p[row := overwrite 0 (new_pkt ! row) (p ! row)] else p)
                         [0..<k] pkt, index))))"

section \<open>The wrappers of \<^verbatim>\<open>rs.cpp\<close>\<close>

definition rs_encode :: "fec_parms \<Rightarrow> bytes list \<Rightarrow> nat \<Rightarrow> bytes list" where
  "rs_encode code data sz =
    fold (\<lambda>i data. data[i := fec_encode code data (data ! i) i sz]) [get_k code..<get_n code] data"

definition rs_received :: "bytes option list \<Rightarrow> nat \<Rightarrow> nat list" where
  "rs_received data n = fold (\<lambda>i index. if data ! i \<noteq> None then index @ [i] else index) [0..<n] []"

definition rs_compact :: "nat list \<Rightarrow> nat \<Rightarrow> bytes option list \<Rightarrow> bytes option list" where
  "rs_compact index = (\<lambda>n. fold (\<lambda>i data. data[i := (if i < length index then data ! (index ! i) else None)]) [0..<n])"

text \<open>The result is the return value and the array; \<open>None\<close> is an access outside an array.\<close>

definition rs_decode :: "fec_parms \<Rightarrow> bytes option list \<Rightarrow> nat \<Rightarrow> (int \<times> bytes option list) option" where
  "rs_decode code data sz =
    (let n = get_n code; index = rs_received data n; count = length index in
     if count < get_k code then Some (-1, data)
     else (let data = rs_compact index n data in
       case fec_decode code (map the (take count data)) index sz of
         None \<Rightarrow> None
       | Some (r, pkt, _) \<Rightarrow> Some (int r, map Some pkt @ drop count data)))"

text \<open>
  The static \<^verbatim>\<open>table\<close> of \<^verbatim>\<open>get_code\<close>: a null pointer until it is first needed, then a block of 256 rows of 256 pointers, one per pair
  \<open>(k, n)\<close>, where \<open>None\<close> is the null pointer. The block is addressed as it lies in memory, so \<open>table[k][n]\<close> is the cell
  \<open>k * 256 + n\<close>, which for \<open>n = 256\<close> is the first cell of the next row, and for \<open>k = 255\<close> lies behind the block.
  \<open>ct_malloc\<close> tells whether the one \<^verbatim>\<open>malloc\<close> succeeds. Every process has a table of its own.
\<close>

record code_table =
  ct_malloc :: bool
  ct_table :: "(nat \<Rightarrow> fec_parms option) option"

definition code_table_new :: code_table where
  "code_table_new = \<lparr>ct_malloc = True, ct_table = None\<rparr>"

text \<open>The result is the pointer returned, and the table; \<open>None\<close> is an access outside the block. When \<^verbatim>\<open>malloc\<close> fails the pointer returned is null;
  a failed \<^verbatim>\<open>fec_new\<close> leaves a null entry.\<close>

definition get_code :: "nat \<Rightarrow> nat \<Rightarrow> code_table \<Rightarrow> (fec_parms option \<times> code_table) option" where
  "get_code k n ct =
    (case (case ct_table ct of None \<Rightarrow> if ct_malloc ct then Some (\<lambda>_. None) else None | Some table \<Rightarrow> Some table) of
       None \<Rightarrow> Some (None, ct)
     | Some table \<Rightarrow>
         if k * 256 + n \<ge> 256 * 256 then None
         else (let table = (if table (k * 256 + n) = None then table(k * 256 + n := fec_new k n) else table)
               in Some (table (k * 256 + n), ct\<lparr>ct_table := Some table\<rparr>)))"

text \<open>\<open>None\<close> in the first component is a null pointer that is followed, or an access outside an array.\<close>

definition rs_encode2 :: "nat \<Rightarrow> nat \<Rightarrow> bytes list \<Rightarrow> nat \<Rightarrow> code_table \<Rightarrow> bytes list option \<times> code_table" where
  "rs_encode2 k n data sz ct =
    (case get_code k n ct of
       None \<Rightarrow> (None, ct)
     | Some (code, ct) \<Rightarrow> (map_option (\<lambda>code. rs_encode code data sz) code, ct))"

definition rs_decode2 :: "nat \<Rightarrow> nat \<Rightarrow> bytes option list \<Rightarrow> nat \<Rightarrow> code_table \<Rightarrow> (int \<times> bytes option list) option \<times> code_table" where
  "rs_decode2 k n data sz ct =
    (case get_code k n ct of
       None \<Rightarrow> (None, ct)
     | Some (code, ct) \<Rightarrow> (Option.bind code (\<lambda>code. rs_decode code data sz), ct))"

section \<open>The encoding matrix\<close>

text \<open>The evaluation points: zero and the powers of the primitive element.\<close>

definition fec_point :: "nat \<Rightarrow> gf256" where
  "fec_point r = (if r = 0 then 0 else GF (apow (r - 1)))"

lemma fec_point_inj: "inj_on fec_point {..<256}"
proof (rule inj_onI)
  fix r s assume "r \<in> {..<256}" "s \<in> {..<256}" "fec_point r = fec_point s"
  then show "r = s"
    using apow_inj[of "r - 1" "s - 1"] by (cases r; cases s) (auto simp: fec_point_def)
qed

lemma GF_apow_mult: "GF (apow (i * j)) = GF (apow i) ^ j"
proof (induction j)
  case (Suc j)
  have "GF (apow (i * Suc j)) = GF (gf_mul (apow i) (apow (i * j)))" by (simp add: gf_mul_apow)
  then show ?case using Suc by simp
qed simp

lemma fec_new_powers_spec:
  assumes k: "0 < k" "k \<le> n"
  shows "length (fec_new_powers k n) = n * k"
    and "r < n \<Longrightarrow> c < k \<Longrightarrow> mat k (fec_new_powers k n) r c = vdm fec_point r c"
proof -
  have e: "gf_exp gf_tab ! unat (modnn (i * j)) = apow (i * j)" for i j
    using mod_less_divisor[of 255 "i * j"] by (simp add: gf_tab_exp apow_mod)
  define Q where "Q row n' m \<longleftrightarrow> length m = n * k \<and>
    (\<forall>r<n. \<forall>c<k. r \<le> row \<or> r = Suc row \<and> c < n' \<longrightarrow> GF (m ! (r * k + c)) = vdm fec_point r c)" for row n' m
  have kn: "i < n * k" if "i < k" for i using that k mult_le_mono1[of 1 n k] by linarith
  have top: "Q 0 0 (fold (\<lambda>col m. m[col := 0]) [1..<k] ((replicate (n * k) 0)[0 := 1]))"
  proof -
    define R where "R i m \<longleftrightarrow> length m = n * k \<and> m ! 0 = 1 \<and> (\<forall>j<k. 0 < j \<and> j < i \<longrightarrow> m ! j = 0)" for i and m :: bytes
    have "R k (fold (\<lambda>col m. m[col := 0]) [1..<k] ((replicate (n * k) 0)[0 := 1]))"
      by (rule fold_upt_invariant [where P = R]) (use k kn in \<open>auto simp: R_def nth_list_update less_Suc_eq\<close>)
    then show ?thesis using k by (auto simp: R_def Q_def vdm_def fec_point_def power_0_left)
  qed
  have inner: "Q row k (fold (\<lambda>col m. m[(row + 1) * k + col := apow (row * col)]) [0..<k] m)"
    if "row < n - 1" "Q row 0 m" for row m
  proof (rule fold_upt_invariant [where P = "Q row"])
    fix i m assume i: "i < k" "Q row i m"
    have "(row + 1) * k + i < n * k" using that(1) i(1) by (intro row_col_less) auto
    then show "Q row (Suc i) (m[(row + 1) * k + i := apow (row * i)])"
      using i unfolding Q_def
      by (auto simp: nth_list_update less_Suc_eq vdm_def fec_point_def GF_apow_mult row_col_inject
          simp del: mult_Suc)
  qed (use that in auto)
  have "Q (n - 1) 0 (fec_new_powers k n)"
    unfolding fec_new_powers_def Let_def e
  proof (rule fold_upt_invariant [where P = "\<lambda>row. Q row 0"])
    fix i m assume "i < n - 1" "Q i 0 m"
    from inner[OF this] show "Q (Suc i) 0 (fold (\<lambda>col m. m[(i + 1) * k + col := apow (i * col)]) [0..<k] m)"
      unfolding Q_def by (auto simp: le_Suc_eq)
  qed (use top in auto)
  then show "length (fec_new_powers k n) = n * k"
    and "r < n \<Longrightarrow> c < k \<Longrightarrow> mat k (fec_new_powers k n) r c = vdm fec_point r c"
    by (auto simp: Q_def mat_def)
qed

text \<open>The inverted top block \<open>W\<close>, and the rows below it, which \<^verbatim>\<open>invert_vdm\<close> leaves alone.\<close>

lemma fec_new_inverse:
  assumes k: "0 < k" "k \<le> n" "n \<le> 256"
  defines "m \<equiv> invert_vdm (fec_new_powers k n) k"
  shows "length m = n * k" "drop (k * k) m = drop (k * k) (fec_new_powers k n)"
    and "i < k \<Longrightarrow> lin k (vdm fec_point) (lin k (mat k m) x) i = x i"
proof -
  note V = fec_new_powers_spec[OF k(1,2)]
  have kk: "k * k \<le> length (fec_new_powers k n)" using V(1) k by simp
  have "length m = n * k \<and> drop (k * k) m = drop (k * k) (fec_new_powers k n) \<and>
    (\<forall>i<k. lin k (vdm fec_point) (lin k (mat k m) x) i = x i)"
  proof (cases "k = 1")
    case True
    then have "mat k m 0 0 = vdm fec_point 0 0" using V(2)[of 0 0] k by (simp add: m_def invert_vdm_def)
    then show ?thesis using True V(1) by (simp add: m_def invert_vdm_def lin_def vdm_def)
  next
    case False
    then have k1: "1 < k" using k by simp
    have p: "mat k (fec_new_powers k n) i 1 = fec_point i" if "i < k" for i
      using V(2)[of i 1] that k k1 by (simp add: vdm_def)
    have p0: "fec_new_powers k n ! 1 = 0" using p[of 0] k by (simp add: mat_def fec_point_def)
    have "inj_on (\<lambda>i. mat k (fec_new_powers k n) i 1) {..<k}"
      using inj_on_subset[OF fec_point_inj, of "{..<k}"] k p by (auto simp: inj_on_def)
    from invert_vdm_correct[OF k1 kk p0 this]
    have "lin k (vdm (\<lambda>i. mat k (fec_new_powers k n) i 1)) (lin k (mat k m) x) i = x i" if "i < k" for i
      using that by (simp add: m_def)
    moreover have "lin k (vdm (\<lambda>i. mat k (fec_new_powers k n) i 1)) y i = lin k (vdm fec_point) y i"
      if "i < k" for i y
      using that p by (intro lin_cong) (auto simp: vdm_def)
    ultimately show ?thesis using invert_vdm_entries[OF k1 kk] V(1) by (simp add: m_def)
  qed
  then show "length m = n * k" "drop (k * k) m = drop (k * k) (fec_new_powers k n)"
    and "i < k \<Longrightarrow> lin k (vdm fec_point) (lin k (mat k m) x) i = x i" by auto
qed

text \<open>The encoding matrix: the identity on top, and every row \<open>r\<close> evaluates, at the point of \<open>r\<close>, the
  polynomial through the data.\<close>

lemma fec_new_matrix:
  assumes k: "0 < k" "k \<le> n" "n \<le> 256" and code: "fec_new k n = Some code"
  shows "fec_k code = k" "fec_n code = n" "length (enc_matrix code) = n * k"
    and "r < k \<Longrightarrow> c < k \<Longrightarrow> mat k (enc_matrix code) r c = (if r = c then 1 else 0)"
    and "r < n \<Longrightarrow> lin k (mat k (enc_matrix code)) x r =
      lin k (vdm fec_point) (lin k (mat k (invert_vdm (fec_new_powers k n) k)) x) r"
proof -
  define m where "m = invert_vdm (fec_new_powers k n) k"
  note inv = fec_new_inverse[OF k, folded m_def]
  define bottom where "bottom = matmul (drop (k * k) m) m (n - k) k k (replicate ((n - k) * k) 0)"
  define enc where "enc = fold (\<lambda>col m. m[col * (k + 1) := 1]) [0..<k] (replicate (k * k) 0 @ bottom)"
  have code': "code = \<lparr>fec_k = k, fec_n = n, enc_matrix = enc\<rparr>"
    using code k unfolding fec_new_def Let_def m_def bottom_def enc_def by auto
  have lb: "length bottom = (n - k) * k" by (simp add: bottom_def matmul_spec)
  have nk: "(n - k) * k + k * k = n * k" using k by (simp add: diff_mult_distrib)
  define P where "P i e \<longleftrightarrow> length e = n * k \<and> drop (k * k) e = bottom \<and>
    (\<forall>r<k. \<forall>c<k. e ! (r * k + c) = (if r = c \<and> r < i then 1 else 0))" for i and e :: bytes
  have "P k enc"
    unfolding enc_def
  proof (rule fold_upt_invariant [where P = P])
    show "P 0 (replicate (k * k) 0 @ bottom)"
      using lb nk by (auto simp: P_def nth_append row_col_less)
    fix i e assume i: "i < k" and P: "P i e"
    have ii: "i * (k + 1) = i * k + i" by simp
    have "i * k + i < k * k" using i by (intro row_col_less)
    then show "P (Suc i) (e[i * (k + 1) := 1])"
      using P i nk unfolding P_def ii by (auto simp: nth_list_update row_col_inject less_Suc_eq)
  qed simp
  then have len: "length enc = n * k" and dr: "drop (k * k) enc = bottom"
    and top: "r < k \<Longrightarrow> c < k \<Longrightarrow> mat k enc r c = (if r = c then 1 else 0)" for r c
    by (auto simp: P_def mat_def)
  show "fec_k code = k" "fec_n code = n" "length (enc_matrix code) = n * k" by (simp_all add: code' len)
  show "r < k \<Longrightarrow> c < k \<Longrightarrow> mat k (enc_matrix code) r c = (if r = c then 1 else 0)"
    using top by (simp add: code')
  assume r: "r < n"
  have "lin k (mat k enc) x r = lin k (vdm fec_point) (lin k (mat k m) x) r"
  proof (cases "r < k")
    case True
    have "lin k (mat k enc) x r = x r" using top True by (intro lin_unit_row) auto
    then show ?thesis using inv(3)[OF True] by simp
  next
    case False
    then have rk: "r - k < n - k" "k * k + (r - k) * k = r * k"
      using r by (auto simp: diff_mult_distrib)
    have low: "drop (k * k) a ! ((r - k) * k + c) = a ! (r * k + c)" if "c < k" "length a = n * k" for a :: bytes and c
      using rk that nk by (simp add: add.assoc [symmetric])
    have row: "mat k enc r c = (\<Sum>l<k. vdm fec_point r l * mat k m l c)" if c: "c < k" for c
    proof -
      have "mat k enc r c = mat k bottom (r - k) c" using low[OF c len] by (simp add: mat_def dr)
      also have "\<dots> = (\<Sum>l<k. mat k (drop (k * k) m) (r - k) l * GF (m ! (c + l * k)))"
        unfolding bottom_def using rk c by (intro matmul_spec) auto
      also have "\<dots> = (\<Sum>l<k. vdm fec_point r l * mat k m l c)"
      proof (rule sum.cong)
        fix l assume "l \<in> {..<k}"
        then have l: "l < k" by simp
        have "mat k (drop (k * k) m) (r - k) l = mat k (fec_new_powers k n) r l"
          unfolding mat_def inv(2) using low[OF l, of "fec_new_powers k n"] fec_new_powers_spec(1)[OF k(1,2)] by simp
        then show "mat k (drop (k * k) m) (r - k) l * GF (m ! (c + l * k)) = vdm fec_point r l * mat k m l c"
          using fec_new_powers_spec(2)[OF k(1,2) r l] by (simp add: mat_def add.commute)
      qed simp
      finally show ?thesis .
    qed
    have "lin k (mat k enc) x r = lin k (\<lambda>i j. \<Sum>l<k. vdm fec_point i l * mat k m l j) x r"
      by (rule lin_cong) (use row in auto)
    then show ?thesis by (simp add: lin_lin)
  qed
  then show "lin k (mat k (enc_matrix code)) x r =
      lin k (vdm fec_point) (lin k (mat k (invert_vdm (fec_new_powers k n) k)) x) r"
    by (simp add: code' m_def)
qed

text \<open>Any \<open>k\<close> different rows of the encoding matrix determine the data.\<close>

theorem fec_new_mds:
  assumes k: "0 < k" "k \<le> n" "n \<le> 256" and code: "fec_new k n = Some code"
    and index: "inj_on index {..<k}" "\<And>i. i < k \<Longrightarrow> index i < n"
  shows "lin_inj k (\<lambda>i. mat k (enc_matrix code) (index i))"
  unfolding lin_inj_def
proof (intro allI impI)
  fix x i
  assume zero: "\<forall>i<k. lin k (\<lambda>i. mat k (enc_matrix code) (index i)) x i = 0" and i: "i < k"
  let ?a = "lin k (mat k (invert_vdm (fec_new_powers k n) k)) x"
  have "lin k (vdm (\<lambda>i. fec_point (index i))) ?a j = 0" if "j < k" for j
  proof -
    have "lin k (vdm (\<lambda>i. fec_point (index i))) ?a j = lin k (vdm fec_point) ?a (index j)"
      by (simp add: lin_def vdm_def)
    also have "\<dots> = lin k (mat k (enc_matrix code)) x (index j)"
      using fec_new_matrix(5)[OF k code index(2)[OF that]] by simp
    also have "\<dots> = 0" using zero that by (simp add: lin_def)
    finally show ?thesis .
  qed
  moreover have "inj_on (\<lambda>i. fec_point (index i)) {..<k}"
  proof (rule inj_onI)
    fix a b assume "a \<in> {..<k}" "b \<in> {..<k}" "fec_point (index a) = fec_point (index b)"
    moreover from this have "index a < 256" "index b < 256" using index(2)[of a] index(2)[of b] k by auto
    ultimately show "a = b" using inj_onD[OF fec_point_inj, of "index a" "index b"] inj_onD[OF index(1)] by auto
  qed
  ultimately have "?a j = 0" if "j < k" for j
    using vdm_inj[of "\<lambda>i. fec_point (index i)" k] that by (auto simp: lin_inj_def)
  then have "lin k (vdm fec_point) ?a i = 0" by (simp add: lin_def)
  then show "x i = 0" using fec_new_inverse(3)[OF k i, of x] by simp
qed

section \<open>Decoding recovers the data\<close>

text \<open>With different indexes \<^verbatim>\<open>shuffle\<close> succeeds, moves packets together with their indexes (\<open>f\<close> says
  which packet belongs to an index) and leaves every data packet in its place.\<close>

lemma swap_nth_distinct: "i < length xs \<Longrightarrow> j < length xs \<Longrightarrow> distinct (swap_nth i j xs) = distinct xs"
  by (simp add: swap_nth_def)

lemma set_swap_nth: "i < length xs \<Longrightarrow> j < length xs \<Longrightarrow> set (swap_nth i j xs) = set xs"
  by (metis mset_swap_nth set_mset_mset)

lemma shuffle_loop_spec:
  assumes "k \<le> length index" "length index = length pkt" "distinct index" "i \<le> k"
    "\<And>j. j < length index \<Longrightarrow> pkt ! j = f (index ! j)" "\<And>j. j < i \<Longrightarrow> index ! j < k \<Longrightarrow> index ! j = j"
  shows "\<exists>pkt' index'. shuffle_loop k i pkt index = Some (0, pkt', index') \<and> length index' = length index \<and>
    length pkt' = length pkt \<and> distinct index' \<and> set index' = set index \<and>
    (\<forall>j < length index. pkt' ! j = f (index' ! j)) \<and> (\<forall>j<k. index' ! j < k \<longrightarrow> index' ! j = j)"
  using assms
proof (induction k i pkt index rule: shuffle_loop.induct)
  case (1 k i pkt index)
  consider "i = k" | "i < k" "index ! i \<ge> k \<or> index ! i = i" | "i < k" "index ! i < k" "index ! i \<noteq> i"
    using 1(6) by linarith
  then show ?case
  proof cases
    case 1
    then show ?thesis using "1.prems" by (subst shuffle_loop.simps) auto
  next
    case 2
    have "\<exists>pkt' index'. shuffle_loop k (i + 1) pkt index = Some (0, pkt', index') \<and> length index' = length index \<and>
      length pkt' = length pkt \<and> distinct index' \<and> set index' = set index \<and>
      (\<forall>j < length index. pkt' ! j = f (index' ! j)) \<and> (\<forall>j<k. index' ! j < k \<longrightarrow> index' ! j = j)"
      using 2 "1.prems" by (intro "1.IH"(1)) (auto simp: less_Suc_eq)
    then show ?thesis using 2 "1.prems"(1) by (subst shuffle_loop.simps) auto
  next
    case 3
    let ?c = "index ! i"
    have c: "?c < length index" "i < length index" using 3 "1.prems"(1) by auto
    then have ne: "index ! ?c \<noteq> ?c" using 3 "1.prems"(3) by (metis nth_eq_iff_index_eq)
    let ?p = "swap_nth i ?c pkt" and ?x = "swap_nth i ?c index"
    have keep: "?x ! j = j" if "j < i" "?x ! j < k" for j
      using that c 3 "1.prems"(6) ne by (auto simp: nth_swap_nth split: if_splits)
    have "\<exists>pkt' index'. shuffle_loop k i ?p ?x = Some (0, pkt', index') \<and> length index' = length ?x \<and>
      length pkt' = length ?p \<and> distinct index' \<and> set index' = set ?x \<and>
      (\<forall>j < length ?x. pkt' ! j = f (index' ! j)) \<and> (\<forall>j<k. index' ! j < k \<longrightarrow> index' ! j = j)"
      using 3 "1.prems" c ne keep
      by (intro "1.IH"(2)[OF _ _ _ refl]) (auto simp: swap_nth_distinct nth_swap_nth)
    then show ?thesis
      using 3 c ne "1.prems" by (subst shuffle_loop.simps) (auto simp: Let_def set_swap_nth)
  qed
qed

lemmas shuffle_spec = shuffle_loop_spec[where i = 0, folded shuffle_def, simplified]

text \<open>The matrix \<^verbatim>\<open>build_decode_matrix\<close> inverts has the encoding rows of the received indexes.\<close>

lemma build_decode_matrix_spec:
  assumes k: "0 < k" "k \<le> n" "n \<le> 256" and code: "fec_new k n = Some code"
    and index: "distinct index" "k \<le> length index" "\<And>j. j < k \<Longrightarrow> index ! j < n"
    and placed: "\<And>j. j < k \<Longrightarrow> index ! j < k \<Longrightarrow> index ! j = j"
  shows "\<exists>m. build_decode_matrix code index = Some m \<and> length m = k * k \<and>
    (\<forall>x. \<forall>i<k. lin k (mat k m) (lin k (\<lambda>i. mat k (enc_matrix code) (index ! i)) x) i = x i)"
proof -
  note C = fec_new_matrix[OF k code]
  let ?A = "\<lambda>i. mat k (enc_matrix code) (index ! i)"
  define P where "P n' m \<longleftrightarrow> length m = k * k \<and> (\<forall>i<n'. \<forall>j<k. i < k \<longrightarrow> mat k m i j = ?A i j)" for n' m
  have row: "\<exists>m'. decode_row code index i m = Some m' \<and> P (Suc i) m'" if i: "i < k" and P: "P i m" for i m
  proof -
    define row where "row = (if index ! i < k then (replicate k 0)[i := 1] else take k (drop (index ! i * k) (enc_matrix code)))"
    have fits: "index ! i * k + k \<le> n * k" using mult_le_mono1[of "Suc (index ! i)" n k] index(3)[OF i] by simp
    have lr: "length row = k" using fits by (simp add: row_def C(3))
    have lm: "length m = k * k" using P by (simp add: P_def)
    have row_nth: "GF (row ! j) = ?A i j" if "j < k" for j
    proof (cases "index ! i < k")
      case True
      then show ?thesis using that i placed[OF i] C(4)[of i j] by (auto simp: row_def mat_def nth_list_update)
    next
      case False
      then show ?thesis using that fits index(3)[OF i] by (simp add: row_def mat_def C(3) less_imp_le)
    qed
    have "decode_row code index i m = Some (overwrite (i * k) row m)"
      using index(3)[OF i] by (simp add: decode_row_def row_def C(1,2))
    moreover have "P (Suc i) (overwrite (i * k) row m)"
    proof -
      have fit: "i * k + length row \<le> length m" using mult_le_mono1[of "Suc i" k k] i by (simp add: lr lm)
      show ?thesis
        using P row_nth overwrite_row[OF lm lr i] fit lm
        by (auto simp: P_def mat_def less_Suc_eq)
    qed
    ultimately show ?thesis by blast
  qed
  have init: "P 0 (replicate (k * k) 0)" by (simp add: P_def)
  have "\<exists>m. fold_option (decode_row code index) [0..<k] (replicate (k * k) 0) = Some m"
    by (rule fold_option_upt_total [where P = P]) (use init row in auto)
  then obtain m where m: "fold_option (decode_row code index) [0..<k] (replicate (k * k) 0) = Some m" ..
  have "P k m"
    by (rule fold_option_upt_invariant[OF m, where P = P]) (use init row in fastforce)+
  then have len: "length m = k * k" and A: "\<And>i j. i < k \<Longrightarrow> j < k \<Longrightarrow> mat k m i j = ?A i j" by (auto simp: P_def)
  have linA: "lin k (mat k m) x i = lin k ?A x i" if "i < k" for x i using that A by (intro lin_cong) auto
  have "inj_on (\<lambda>i. index ! i) {..<k}"
    using index(1,2) by (auto simp: inj_on_def nth_eq_iff_index_eq)
  from fec_new_mds[OF k code this index(3)] have "lin_inj k (mat k m)" using linA by (simp add: lin_inj_def)
  from invert_mat_complete[OF len this] obtain m' where m': "invert_mat m k = Some m'" ..
  have "lin k (mat k m') (lin k ?A x) i = x i" if "i < k" for x i
  proof -
    have "lin k (mat k m') (lin k ?A x) i = lin k (mat k m') (lin k (mat k m) x) i"
      by (rule lin_cong) (simp_all add: linA)
    then show ?thesis using invert_mat_sound[OF len m'] that by simp
  qed
  then show ?thesis using m m' invert_mat_sound[OF len m'] by (simp add: build_decode_matrix_def C(1))
qed

text \<open>The packet with index \<open>r\<close>, byte by byte, for data packets of at least \<open>sz\<close> bytes.\<close>

definition codeword :: "fec_parms \<Rightarrow> bytes list \<Rightarrow> nat \<Rightarrow> nat \<Rightarrow> bytes" where
  "codeword code data sz r =
     map (\<lambda>t. fold (\<lambda>j acc. acc XOR gf_mul (enc_matrix code ! (r * fec_k code + j)) (data ! j ! t)) [0..<fec_k code] 0)
       [0..<sz]"

lemma length_codeword [simp]: "length (codeword code data sz r) = sz"
  by (simp add: codeword_def)

lemma GF_codeword:
  "t < sz \<Longrightarrow> GF (codeword code data sz r ! t) = lin (fec_k code) (mat (fec_k code) (enc_matrix code)) (\<lambda>j. GF (data ! j ! t)) r"
  by (simp add: codeword_def GF_fold_xor lin_def mat_def)

lemma fold_addmul:
  assumes "length fec = sz"
  shows "length (fold (\<lambda>i fec. addmul fec (src i) (c i) sz) [0..<k] fec) = sz"
    and "t < sz \<Longrightarrow> GF (fold (\<lambda>i fec. addmul fec (src i) (c i) sz) [0..<k] fec ! t) =
      GF (fec ! t) + (\<Sum>i<k. GF (c i) * GF (src i ! t))"
proof -
  have "length (fold (\<lambda>i fec. addmul fec (src i) (c i) sz) [0..<k] fec) = sz \<and>
    (\<forall>t < sz. GF (fold (\<lambda>i fec. addmul fec (src i) (c i) sz) [0..<k] fec ! t) =
      GF (fec ! t) + (\<Sum>i<k. GF (c i) * GF (src i ! t)))"
    by (induction k) (auto simp: assms addmul_spec add.assoc)
  then show "length (fold (\<lambda>i fec. addmul fec (src i) (c i) sz) [0..<k] fec) = sz"
    and "t < sz \<Longrightarrow> GF (fold (\<lambda>i fec. addmul fec (src i) (c i) sz) [0..<k] fec ! t) =
      GF (fec ! t) + (\<Sum>i<k. GF (c i) * GF (src i ! t))" by auto
qed

lemma codeword_data:
  assumes k: "0 < k" "k \<le> n" "n \<le> 256" and code: "fec_new k n = Some code"
    and r: "r < k" "length (data ! r) = sz"
  shows "codeword code data sz r = data ! r"
proof (rule nth_equalityI)
  fix t assume "t < length (codeword code data sz r)"
  then have "GF (codeword code data sz r ! t) = lin k (mat k (enc_matrix code)) (\<lambda>j. GF (data ! j ! t)) r"
    by (simp add: GF_codeword fec_new_matrix(1)[OF k code])
  also have "\<dots> = GF (data ! r ! t)"
    using r fec_new_matrix(4)[OF k code] by (intro lin_unit_row) auto
  finally show "codeword code data sz r ! t = data ! r ! t" by simp
qed (simp add: r)

lemma fec_encode_codeword:
  assumes k: "0 < k" "k \<le> n" "n \<le> 256" and code: "fec_new k n = Some code"
    and r: "r < n" "length fec = sz" "\<And>j. j < k \<Longrightarrow> length (data ! j) = sz"
  shows "fec_encode code data fec r sz = codeword code data sz r"
proof (cases "r < k")
  case True
  then have "fec_encode code data fec r sz = data ! r"
    using r by (simp add: fec_encode_def fec_new_matrix(1)[OF k code] overwrite_def)
  then show ?thesis using codeword_data[OF k code True r(3)[OF True]] by simp
next
  case False
  note C = fec_new_matrix(1,2)[OF k code]
  define e where "e = fold (\<lambda>i fec. addmul fec (data ! i) (enc_matrix code ! (r * k + i)) sz) [0..<k] (replicate sz 0)"
  have enc: "fec_encode code data fec r sz = e"
    using False r by (simp add: fec_encode_def C e_def overwrite_def)
  have len: "length e = sz" unfolding e_def by (rule fold_addmul) simp
  have "e ! t = codeword code data sz r ! t" if "t < sz" for t
  proof -
    have "GF (e ! t) = GF (replicate sz 0 ! t) + (\<Sum>i<k. GF (enc_matrix code ! (r * k + i)) * GF (data ! i ! t))"
      unfolding e_def using that by (intro fold_addmul(2)) auto
    then have "GF (e ! t) = GF (codeword code data sz r ! t)"
      using that GF_codeword[OF that, of code data r] by (simp add: C lin_def mat_def)
    then show ?thesis by (simp only: GF_inject')
  qed
  then show ?thesis unfolding enc using len by (intro nth_equalityI) auto
qed

text \<open>\<^verbatim>\<open>fec_decode\<close> of any \<open>k\<close> different packets of a codeword returns the data.\<close>

theorem fec_decode_recovers:
  assumes k: "0 < k" "k \<le> n" "n \<le> 256" and code: "fec_new k n = Some code"
    and data: "\<And>j. j < k \<Longrightarrow> length (data ! j) = sz"
    and index: "distinct index" "k \<le> length index" "\<And>j. j \<in> set index \<Longrightarrow> j < n"
    and pkt: "length pkt = length index" "\<And>j. j < length index \<Longrightarrow> pkt ! j = codeword code data sz (index ! j)"
  shows "\<exists>pkt' index'. fec_decode code pkt index sz = Some (0, pkt', index') \<and>
    length pkt' = length pkt \<and> (\<forall>j<k. pkt' ! j = data ! j)"
proof -
  note C = fec_new_matrix(1,2)[OF k code]
  obtain p x where sh: "shuffle pkt index k = Some (0, p, x)" and px: "length x = length index"
    "length p = length pkt" "distinct x" "set x = set index"
    "\<And>j. j < length index \<Longrightarrow> p ! j = codeword code data sz (x ! j)" "\<And>j. j < k \<Longrightarrow> x ! j < k \<Longrightarrow> x ! j = j"
    using shuffle_spec[OF index(2) pkt(1)[symmetric] index(1) pkt(2)] by blast
  have xn: "x ! j < n" if "j < k" for j using that index(2,3) px(1,4) nth_mem[of j x] by simp
  obtain m where m: "build_decode_matrix code x = Some m" "length m = k * k"
    "\<And>y i. i < k \<Longrightarrow> lin k (mat k m) (lin k (\<lambda>i. mat k (enc_matrix code) (x ! i)) y) i = y i"
    using build_decode_matrix_spec[OF k code px(3) _ xn px(6)] index(2) px(1) by auto
  define new where "new row = fold (\<lambda>col q. addmul q (p ! col) (m ! (row * k + col)) sz) [0..<k] (replicate sz 0)" for row
  have new: "new row = data ! row" if row: "row < k" for row
  proof (rule nth_equalityI)
    show "length (new row) = length (data ! row)" unfolding new_def data[OF row] by (rule fold_addmul) simp
    fix t assume "t < length (new row)"
    then have t: "t < sz" unfolding new_def by (simp add: fold_addmul)
    have "GF (new row ! t) = lin k (mat k m) (\<lambda>j. GF (p ! j ! t)) row"
      using t fold_addmul(2)[of "replicate sz 0" sz t "\<lambda>col. p ! col" "\<lambda>col. m ! (row * k + col)" k]
      by (simp add: new_def lin_def mat_def)
    also have "\<dots> = lin k (mat k m) (lin k (\<lambda>i. mat k (enc_matrix code) (x ! i)) (\<lambda>j. GF (data ! j ! t))) row"
      using px(5) index(2) t by (intro lin_cong) (auto simp: GF_codeword C lin_def)
    finally show "new row ! t = data ! row ! t" using m(3)[OF row] by simp
  qed
  define P where "P i q \<longleftrightarrow> length q = length pkt \<and> (\<forall>j<k. q ! j = (if j < i then data ! j else p ! j))" for i and q :: "bytes list"
  have "P k (fold (\<lambda>row q. if x ! row \<ge> k then q[row := overwrite 0 (map (\<lambda>row. if x ! row \<ge> k then new row else []) [0..<k] ! row) (q ! row)] else q) [0..<k] p)"
  proof (rule fold_upt_invariant [where P = P])
    fix i q assume i: "i < k" and P: "P i q"
    have lp: "length (p ! i) = sz" using px(5)[of i] index(2) i by simp
    have "x ! i < k \<Longrightarrow> p ! i = data ! i"
      using px(5)[of i] px(6)[OF i] index(2) i codeword_data[OF k code i data[OF i]] by simp
    then show "P (Suc i) (if x ! i \<ge> k then q[i := overwrite 0 (map (\<lambda>row. if x ! row \<ge> k then new row else []) [0..<k] ! i) (q ! i)] else q)"
      using P i lp new[OF i] data[OF i] index(2) pkt(1)
      by (auto simp: P_def nth_list_update less_Suc_eq overwrite_def)
  qed (use px in \<open>auto simp: P_def\<close>)
  then show ?thesis
    unfolding P_def new_def by (simp add: fec_decode_def C sh m(1) Let_def)
qed

section \<open>The wrappers\<close>

lemma rs_encode_codewords:
  assumes k: "0 < k" "k \<le> n" "n \<le> 256" and code: "fec_new k n = Some code"
    and data: "length data = n" "\<And>j. j < n \<Longrightarrow> length (data ! j) = sz"
  shows "rs_encode code data sz = map (codeword code data sz) [0..<n]"
proof -
  note C = fec_new_matrix(1,2)[OF k code]
  define P where "P i d \<longleftrightarrow> length d = n \<and> (\<forall>j<n. d ! j = (if j < i then codeword code data sz j else data ! j))"
    for i and d :: "bytes list"
  have "P n (fold (\<lambda>i d. d[i := fec_encode code d (d ! i) i sz]) [k..<n] data)"
  proof (rule fold_upt_invariant [where P = P])
    show "P k data" using data k codeword_data[OF k code] by (auto simp: P_def)
    fix i d assume i: "k \<le> i" "i < n" and P: "P i d"
    have top: "d ! j = data ! j" if "j < k" for j
      using P that i k codeword_data[OF k code that data(2)] by (simp add: P_def)
    have "fec_encode code d (d ! i) i sz = codeword code d sz i"
      using P i k data top by (intro fec_encode_codeword[OF k code]) (auto simp: P_def)
    also have "\<dots> = codeword code data sz i"
      unfolding codeword_def C by (intro map_cong fold_cong) (auto simp: top)
    finally show "P (Suc i) (d[i := fec_encode code d (d ! i) i sz])"
      using P i by (auto simp: P_def nth_list_update less_Suc_eq)
  qed (use k in auto)
  then show ?thesis
    by (intro nth_equalityI) (auto simp: rs_encode_def get_k_def get_n_def C P_def)
qed

lemma rs_received_filter: "rs_received data n = filter (\<lambda>i. data ! i \<noteq> None) [0..<n]"
  unfolding rs_received_def by (induction n) auto

text \<open>Compacting in place works because the \<open>i\<close>-th received index is never below \<open>i\<close>.\<close>

lemma filter_upt_nth_ge: "i < length (filter P [0..<n]) \<Longrightarrow> i \<le> filter P [0..<n] ! i"
proof (rule ccontr)
  let ?f = "filter P [0..<n]"
  assume i: "i < length ?f" and "\<not> i \<le> ?f ! i"
  have "?f ! j < i" if "j \<le> i" for j
    using sorted_nth_mono[of ?f j i] that i \<open>\<not> i \<le> ?f ! i\<close> by (simp add: sorted_filter[of id, simplified])
  then have "(\<lambda>j. ?f ! j) ` {..i} \<subseteq> {..<i}" by auto
  moreover have "inj_on (\<lambda>j. ?f ! j) {..i}" using i by (auto simp: inj_on_def nth_eq_iff_index_eq)
  ultimately have "card {..i} \<le> card {..<i}" by (metis card_inj_on_le finite_lessThan)
  then show False by simp
qed

lemma rs_compact_spec:
  assumes "length data = n"
  defines "index \<equiv> rs_received data n"
  shows "rs_compact index n data = map (\<lambda>i. data ! i) index @ replicate (n - length index) None"
proof -
  have cnt: "length index \<le> n" unfolding index_def rs_received_filter by (metis length_filter_le length_upt diff_zero)
  have ge: "i \<le> index ! i" "index ! i < n" if "i < length index" for i
    using that filter_upt_nth_ge[of i "\<lambda>i. data ! i \<noteq> None" n] nth_mem[of i index]
    by (auto simp: index_def rs_received_filter)
  define P where "P i d \<longleftrightarrow> length d = n \<and> (\<forall>j<n. d ! j =
    (if j < i then (if j < length index then data ! (index ! j) else None) else data ! j))" for i and d :: "bytes option list"
  have "P n (rs_compact index n data)"
    unfolding rs_compact_def
    by (rule fold_upt_invariant [where P = P])
      (use assms(1) ge in \<open>auto simp: P_def nth_list_update less_Suc_eq not_less dest: leD[OF ge(1)]\<close>)
  then show ?thesis
    using cnt by (intro nth_equalityI) (auto simp: P_def nth_append)
qed

lemma rs_received_props:
  "distinct (rs_received data n)" "i \<in> set (rs_received data n) \<longleftrightarrow> i < n \<and> data ! i \<noteq> None"
  by (auto simp: rs_received_filter)

lemma set_rs_received: "set (rs_received data n) = {i. i < n \<and> data ! i \<noteq> None}"
  using rs_received_props(2) by blast

theorem rs_decode_recovers:
  assumes k: "0 < k" "k \<le> n" "n \<le> 256" and code: "fec_new k n = Some code"
    and data: "\<And>j. j < k \<Longrightarrow> length (data ! j) = sz"
    and recv: "length recv = n" "\<And>i. i < n \<Longrightarrow> recv ! i = None \<or> recv ! i = Some (codeword code data sz i)"
    and enough: "k \<le> length (rs_received recv n)"
  shows "\<exists>out. rs_decode code recv sz = Some (0, out) \<and> length out = n \<and>
    (\<forall>j<k. out ! j = Some (data ! j)) \<and> length (rs_received out n) = length (rs_received recv n)"
proof -
  note C = fec_new_matrix(1,2)[OF k code]
  let ?x = "rs_received recv n" and ?d = "rs_compact (rs_received recv n) n recv"
  let ?pkt = "map the (take (length ?x) ?d)"
  have d: "?d = map (\<lambda>i. recv ! i) ?x @ replicate (n - length ?x) None" by (rule rs_compact_spec[OF recv(1)])
  have cnt: "length ?x \<le> n" unfolding rs_received_filter by (metis length_filter_le length_upt diff_zero)
  have "the (recv ! i) = codeword code data sz i" if "i \<in> set ?x" for i
    using that recv(2)[of i] by (auto simp: rs_received_props)
  then have pkt: "length ?pkt = length ?x" "\<And>j. j < length ?x \<Longrightarrow> ?pkt ! j = codeword code data sz (?x ! j)"
    by (simp_all add: d)
  from fec_decode_recovers[OF k code data rs_received_props(1)[of recv n] enough _ pkt]
  obtain p y where fd: "fec_decode code ?pkt ?x sz = Some (0, p, y)" "length p = length ?pkt" "\<forall>j<k. p ! j = data ! j"
    by (auto simp: rs_received_props)
  let ?out = "map Some p @ drop (length ?x) ?d"
  have out: "?out = map Some p @ replicate (n - length ?x) None" by (simp add: d)
  have "length (rs_received ?out n) = length ?x"
  proof -
    have "length (rs_received ?out n) = card {i. i < n \<and> ?out ! i \<noteq> None}"
      using distinct_card[OF rs_received_props(1)[of ?out n]] by (simp add: set_rs_received)
    also have "?out ! i \<noteq> None \<longleftrightarrow> i < length ?x" if "i < n" for i
      using fd(2) pkt(1) cnt that unfolding out by (cases "i < length ?x") (auto simp: nth_append)
    then have "{i. i < n \<and> ?out ! i \<noteq> None} = {..<length ?x}" using cnt by auto
    finally show ?thesis by simp
  qed
  then show ?thesis
    using enough fd pkt(1) cnt
    by (auto simp: rs_decode_def get_k_def get_n_def C Let_def out nth_append intro!: exI[of _ ?out])
qed

lemma length_rs_received: "length (rs_received data n) = card {i. i < n \<and> data ! i \<noteq> None}"
  using distinct_card[OF rs_received_props(1)] by (simp add: set_rs_received)

text \<open>With fewer than \<open>k\<close> packets nothing is changed and the caller is told.\<close>

lemma rs_decode_too_few:
  "length (rs_received recv (get_n code)) < get_k code \<Longrightarrow> rs_decode code recv sz = Some (-1, recv)"
  by (simp add: rs_decode_def Let_def)

text \<open>\<^verbatim>\<open>get_code\<close> is \<^verbatim>\<open>fec_new\<close> with a cache: a table is good when there is or will be a block and every entry for a usable pair is
  right. The entries for \<open>n = 256\<close> lie in cells of pairs that are not usable.\<close>

definition code_table_ok :: "code_table \<Rightarrow> bool" where
  "code_table_ok ct \<longleftrightarrow> (case ct_table ct of None \<Rightarrow> ct_malloc ct
     | Some table \<Rightarrow> \<forall>k n code. 0 < k \<longrightarrow> k \<le> n \<longrightarrow> n < 256 \<longrightarrow> table (k * 256 + n) = Some code \<longrightarrow> fec_new k n = Some code)"

lemma code_table_empty [inv_intros]: "code_table_ok code_table_new"
  by (simp add: code_table_ok_def code_table_new_def)

text \<open>The descriptor of a usable pair, from every good table.\<close>

lemma get_code_spec:
  assumes ok: "code_table_ok ct" and k: "0 < k" "k \<le> n" "n < 256"
  shows "\<exists>ct'. get_code k n ct = Some (fec_new k n, ct')"
proof -
  have "k * 256 + n < 256 * 256" using k by simp
  then show ?thesis
    using ok k by (cases "ct_table ct") (fastforce simp: get_code_def code_table_ok_def Let_def split: if_splits)+
qed

text \<open>Whatever pair is asked for, the table stays good.\<close>

lemma cell_of_usable:
  assumes "k' * 256 + n' = k * 256 + n" "0 < k'" "k' \<le> n'" "n' < 256" "fec_new k n = Some code"
  shows "k' = k \<and> n' = n"
proof -
  have "n \<le> 256" using assms(5) by (simp add: fec_new_def split: if_splits)
  have c: "k' = (k * 256 + n) div 256" "n' = (k * 256 + n) mod 256" using assms(1)[symmetric] assms(4) by simp_all
  show ?thesis
  proof (cases "n = 256")
    case True
    then have "n' = 0" using c(2) by simp
    then show ?thesis using assms(2,3) by simp
  qed (use c \<open>n \<le> 256\<close> in simp)
qed

lemma get_code_ok:
  assumes ok: "code_table_ok ct" and g: "get_code k n ct = Some (code, ct')"
  shows "code_table_ok ct'"
proof (cases "ct_table ct = None \<and> \<not> ct_malloc ct")
  case False
  define table where "table = (case ct_table ct of None \<Rightarrow> (\<lambda>_. None) | Some table \<Rightarrow> table)"
  have t: "fec_new k' n' = Some c" if "0 < k'" "k' \<le> n'" "n' < 256" "table (k' * 256 + n') = Some c" for k' n' c
    using ok that by (cases "ct_table ct") (auto simp: table_def code_table_ok_def)
  have "ct_table ct' = Some (if table (k * 256 + n) = None then table(k * 256 + n := fec_new k n) else table)"
    using False g by (cases "ct_table ct") (auto simp: get_code_def table_def Let_def split: if_splits)
  moreover have "fec_new k' n' = Some c" if "0 < k'" "k' \<le> n'" "n' < 256" "(table(k * 256 + n := fec_new k n)) (k' * 256 + n') = Some c" for k' n' c
    using t[OF that(1-3)] cell_of_usable[of k' n' k n c] that by (auto split: if_splits)
  ultimately show ?thesis using t by (simp add: code_table_ok_def)
qed (use ok in \<open>simp add: code_table_ok_def\<close>)

lemma rs_decode2_codes: "code_table_ok ct \<Longrightarrow> rs_decode2 k n data sz ct = (res, ct') \<Longrightarrow> code_table_ok ct'"
  by (auto simp: rs_decode2_def split: option.splits prod.splits dest: get_code_ok)

lemma rs_encode2_codes: "code_table_ok ct \<Longrightarrow> rs_encode2 k n data sz ct = (res, ct') \<Longrightarrow> code_table_ok ct'"
  by (auto simp: rs_encode2_def split: option.splits prod.splits dest: get_code_ok)

lemma rs_code2:
  assumes "code_table_ok ct" "0 < k" "k \<le> n" "n < 256" "fec_new k n = Some code"
  shows "\<exists>ct'. rs_encode2 k n data sz ct = (Some (rs_encode code data sz), ct') \<and> code_table_ok ct'"
    and "\<exists>ct'. rs_decode2 k n recv sz ct = (rs_decode code recv sz, ct') \<and> code_table_ok ct'"
proof -
  obtain ct' where g: "get_code k n ct = Some (fec_new k n, ct')" using get_code_spec[OF assms(1-4)] by blast
  moreover have "code_table_ok ct'" using get_code_ok[OF assms(1) g] .
  ultimately show "\<exists>ct'. rs_encode2 k n data sz ct = (Some (rs_encode code data sz), ct') \<and> code_table_ok ct'"
    and "\<exists>ct'. rs_decode2 k n recv sz ct = (rs_decode code recv sz, ct') \<and> code_table_ok ct'"
    using assms(5) by (simp_all add: rs_encode2_def rs_decode2_def)
qed

text \<open>The limit of the library is 255: a group of 256 packets has its descriptor behind the block, or in the cell of another pair.\<close>

lemma get_code_256: "ct_table ct = Some table \<or> ct_malloc ct \<Longrightarrow> 255 \<le> k \<Longrightarrow> get_code k 256 ct = None"
  by (auto simp: get_code_def split: option.splits)

end
