(* ===== verification/Bytes.thy ===== *)
theory Bytes
  imports Prelude
begin

text \<open>
  The helpers of \<^verbatim>\<open>src/ref/UDPspeeder/common.cpp\<close>: big-endian integers in byte strings, 64-bit packing,
  the Internet checksum, the two string hashes, the clock that never runs backwards, and splitting a
  string at separators. Native-endian accesses are those of a little-endian machine.
\<close>

section \<open>Integers in byte strings\<close>

definition write_u16 :: "u16 \<Rightarrow> bytes" where
  "write_u16 w = [ucast (drop_bit 8 w), ucast (w AND 0xff)]"

definition read_u16 :: "bytes \<Rightarrow> u16" where
  "read_u16 p = (let res = ucast (p ! 0) in ucast (p ! 1) + push_bit 8 res)"

definition write_u32 :: "u32 \<Rightarrow> bytes" where
  "write_u32 l = [ucast (drop_bit 24 l AND 0xff), ucast (drop_bit 16 l AND 0xff),
     ucast (drop_bit 8 l AND 0xff), ucast (drop_bit 0 l AND 0xff)]"

definition read_u32 :: "bytes \<Rightarrow> u32" where
  "read_u32 p =
    (let res = ucast (p ! 0);
         res = ucast (p ! 1) + push_bit 8 res;
         res = ucast (p ! 2) + push_bit 8 res
     in ucast (p ! 3) + push_bit 8 res)"

definition pack_u64 :: "u32 \<Rightarrow> u32 \<Rightarrow> u64" where
  "pack_u64 a b = push_bit 32 (ucast a) + ucast b"

definition get_u64_h :: "u64 \<Rightarrow> u32" where
  "get_u64_h a = ucast (drop_bit 32 a)"

definition get_u64_l :: "u64 \<Rightarrow> u32" where
  "get_u64_l a = ucast (drop_bit 32 (push_bit 32 a))"

definition round_up_div :: "nat \<Rightarrow> nat \<Rightarrow> nat" where
  "round_up_div a b = (a + b - 1) div b"

lemma length_write_u16 [simp, len_simps]: "length (write_u16 w) = 2"
  by (simp add: write_u16_def)

lemma length_write_u32 [simp, len_simps]: "length (write_u32 l) = 4"
  by (simp add: write_u32_def)

lemma bit_word_simps:
  "bit (ucast (w :: 'a::len word) :: 'b::len word) n \<longleftrightarrow> n < LENGTH('b) \<and> bit w n"
  by (auto simp: bit_unsigned_iff dest: bit_imp_le_length)

text \<open>A byte added to a word whose low eight bits are zero is put there.\<close>

lemma add_shifted_byte:
  "(ucast (b :: u8) :: 'a::len word) + push_bit 8 r = ucast b OR push_bit 8 r"
proof (rule disjunctive_add)
  show "\<not> bit (ucast b :: 'a word) n \<or> \<not> bit (push_bit 8 r) n" for n
    using bit_imp_le_length[of b n] by (auto simp: bit_word_simps bit_push_bit_iff)
qed

lemma and_0xff: "(w :: 'a::len word) AND 0xff = take_bit 8 w"
proof -
  have "(mask 8 :: 'a word) = 0xff" by (simp add: mask_eq_exp_minus_1)
  then show ?thesis by (simp only: take_bit_eq_mask)
qed

lemma bit_u8_high [simp]: "8 \<le> n \<Longrightarrow> \<not> bit (b :: u8) n"
  using bit_imp_le_length[of b n] by auto

lemma read_u16_write_u16 [simp, roundtrip_simps]: "read_u16 (write_u16 w @ rest) = w"
  unfolding read_u16_def write_u16_def Let_def and_0xff
  by (rule bit_word_eqI) (auto simp: add_shifted_byte bit_simps bit_word_simps)

lemma read_u32_write_u32 [simp, roundtrip_simps]: "read_u32 (write_u32 l @ rest) = l"
  unfolding read_u32_def Let_def add_shifted_byte write_u32_def and_0xff
proof (rule bit_word_eqI, goal_cases)
  case (1 n)
  consider "n < 8" | "8 \<le> n" "n < 16" | "16 \<le> n" "n < 24" | "24 \<le> n" by linarith
  then show ?case using 1 by cases (auto simp: bit_simps bit_word_simps)
qed

lemma write_u16_read_u16: "write_u16 (read_u16 [a, b]) = [a, b]"
  unfolding read_u16_def Let_def add_shifted_byte write_u16_def and_0xff
  by (auto intro!: bit_word_eqI simp: bit_simps bit_word_simps)

lemma read_u16_append: "length p = 2 \<Longrightarrow> read_u16 (p @ q) = read_u16 p"
  by (simp add: read_u16_def nth_append)

lemma read_u32_append: "length p = 4 \<Longrightarrow> read_u32 (p @ q) = read_u32 p"
  by (simp add: read_u32_def nth_append)

lemma write_u32_read_u32: "write_u32 (read_u32 [a, b, c, d]) = [a, b, c, d]"
  unfolding read_u32_def Let_def add_shifted_byte write_u32_def and_0xff
  by (auto intro!: bit_word_eqI simp: bit_simps bit_word_simps)

lemma pack_u64_alt: "pack_u64 a b = push_bit 32 (ucast a) OR ucast b"
  unfolding pack_u64_def
proof (rule disjunctive_add)
  show "\<not> bit (push_bit 32 (ucast a) :: u64) n \<or> \<not> bit (ucast b :: u64) n" for n
    using bit_imp_le_length[of b n] by (auto simp: bit_word_simps bit_push_bit_iff)
qed

lemma get_u64_pack [simp, roundtrip_simps]:
  "get_u64_h (pack_u64 a b) = a" "get_u64_l (pack_u64 a b) = b"
  unfolding get_u64_h_def get_u64_l_def pack_u64_alt
  by (rule bit_word_eqI; auto simp: bit_simps bit_word_simps dest: bit_imp_le_length)+

lemma pack_get_u64: "pack_u64 (get_u64_h x) (get_u64_l x) = x"
  unfolding get_u64_h_def get_u64_l_def pack_u64_alt
  by (rule bit_word_eqI) (auto simp: bit_simps bit_word_simps)

lemma round_up_div_bounds:
  assumes "0 < b"
  shows "a \<le> round_up_div a b * b" "a + b - 1 < round_up_div a b * b + b"
proof -
  have m: "(a + b - 1) mod b < b" using assms by simp
  have e: "(a + b - 1) div b * b + (a + b - 1) mod b = a + b - 1" by simp
  show "a \<le> round_up_div a b * b" using m e assms unfolding round_up_div_def by linarith
  show "a + b - 1 < round_up_div a b * b + b" using m e unfolding round_up_div_def by linarith
qed

section \<open>A clock that never runs backwards\<close>

record clock =
  value_fix :: u64
  largest_value :: u64

definition clock_init :: clock where
  "clock_init = \<lparr>value_fix = 0, largest_value = 0\<rparr>"

text \<open>\<open>raw_value\<close> is what \<^verbatim>\<open>ev_time\<close> reads, in microseconds.\<close>

definition get_current_time_us :: "u64 \<Rightarrow> clock \<Rightarrow> u64 \<times> clock" where
  "get_current_time_us raw_value c =
    (let fixed_value = raw_value + value_fix c;
         c = (if fixed_value < largest_value c
              then c\<lparr>value_fix := value_fix c + (largest_value c - fixed_value)\<rparr>
              else c\<lparr>largest_value := fixed_value\<rparr>)
     in (raw_value + value_fix c, c))"

definition get_current_time :: "u64 \<Rightarrow> clock \<Rightarrow> u64 \<times> clock" where
  "get_current_time raw_value c = (case get_current_time_us raw_value c of (t, c) \<Rightarrow> (t div 1000, c))"

lemma get_current_time_us_max:
  "get_current_time_us raw_value c = (t, c') \<Longrightarrow>
   t = max (largest_value c) (raw_value + value_fix c) \<and> largest_value c' = t"
  by (auto simp: get_current_time_us_def Let_def max_def split: if_splits)

fun clock_run :: "u64 list \<Rightarrow> clock \<Rightarrow> u64 list" where
  "clock_run [] c = []"
| "clock_run (r # rs) c = (case get_current_time r c of (t, c) \<Rightarrow> t # clock_run rs c)"

lemma clock_run_lower: "t \<in> set (clock_run rs c) \<Longrightarrow> largest_value c div 1000 \<le> t"
proof (induction rs arbitrary: c)
  case (Cons r rs)
  obtain u c' where u: "get_current_time_us r c = (u, c')" by fastforce
  note m = get_current_time_us_max[OF u]
  have "largest_value c div 1000 \<le> largest_value c' div 1000"
  proof -
    have "largest_value c \<le> largest_value c'" using m by simp
    then show ?thesis by (simp add: word_le_nat_alt unat_div_distrib div_le_mono)
  qed
  then show ?case using Cons m u by (fastforce simp: get_current_time_def)
qed simp

text \<open>Whatever the system clock reports, also when it is set back, the times the program works with never decrease.\<close>

theorem clock_run_sorted: "sorted (clock_run rs c)"
proof (induction rs arbitrary: c)
  case (Cons r rs)
  obtain u c' where u: "get_current_time_us r c = (u, c')" by fastforce
  then show ?case
    using Cons clock_run_lower[of _ rs c'] get_current_time_us_max[OF u] by (auto simp: get_current_time_def)
qed simp

section \<open>Checksums and hashes\<close>

text \<open>The 16-bit words the pointer walks over; an odd last byte is the low half of a word.\<close>

fun le_words :: "bytes \<Rightarrow> nat list" where
  "le_words (a # b # bs) = (unat a + 256 * unat b) # le_words bs"
| "le_words [a] = [unat a]"
| "le_words [] = []"

definition csum_fold :: "nat \<Rightarrow> u16" where
  "csum_fold s =
    (let s = drop_bit 16 s + (s AND 0xffff);
         s = s + drop_bit 16 s
     in NOT (word_of_nat s))"

definition csum :: "bytes \<Rightarrow> u16" where
  "csum ptr = csum_fold (fold (\<lambda>w s. s + w) (le_words ptr) 0)"

text \<open>\<open>ph\<close> is the pseudo header, six words.\<close>

definition tcp_csum :: "bytes \<Rightarrow> bytes \<Rightarrow> u16" where
  "tcp_csum ph ptr =
    (let s = fold (\<lambda>w s. s + w) (take 6 (le_words ph)) 0
     in csum_fold (fold (\<lambda>w s. s + w) (le_words ptr) s))"

definition htonl :: "u32 \<Rightarrow> u32" where
  "htonl x = read_u32 (rev (write_u32 x))"

definition djb2 :: "bytes \<Rightarrow> u32" where
  "djb2 str = htonl (fold (\<lambda>c hash. (push_bit 5 hash + hash) XOR ucast c) str 5381)"

definition sdbm :: "bytes \<Rightarrow> u32" where
  "sdbm str = fold (\<lambda>c hash. ucast c + push_bit 6 hash + push_bit 16 hash - hash) str 0"

lemma fold_plus: "fold (\<lambda>w s. s + w) ws a = a + sum_list (ws :: nat list)"
  by (induction ws arbitrary: a) simp_all

lemma le_words_append: "even (length xs) \<Longrightarrow> le_words (xs @ ys) = le_words xs @ le_words ys"
  by (induction xs rule: le_words.induct) auto

text \<open>Folding the carries back: the complement is the value modulo 65535 in which only 0 is 0.\<close>

lemma unat_not_u16: "unat (NOT (w :: u16)) = 65535 - unat w"
proof -
  have "w \<le> -1" by simp
  then have "unat (-1 - w) = unat (-1 :: u16) - unat w" by (rule unat_sub)
  moreover have "-1 - w = NOT w" by (simp add: not_eq_complement)
  moreover have "unat (-1 :: u16) = 65535" by (simp add: unsigned_minus_1_eq_mask mask_eq_exp_minus_1)
  ultimately show ?thesis by simp
qed

lemma csum_fold_nat:
  assumes "s < 2 ^ 32"
  shows "unat (csum_fold s) = (if s = 0 then 65535 else 65534 - (s - 1) mod 65535)"
proof -
  define a where "a = s div 65536 + s mod 65536"
  have hi: "s div 65536 < 65536" using assms by (simp add: less_mult_imp_div_less)
  have lo: "s mod 65536 < 65536" by simp
  have s: "s = s div 65536 * 65536 + s mod 65536" by simp
  have mask: "(s AND 0xffff) = s mod 65536"
    using take_bit_eq_mask[of 16 s] by (simp add: mask_eq_exp_minus_1 take_bit_eq_mod)
  have "csum_fold s = NOT (word_of_nat (a + a div 65536))"
    unfolding csum_fold_def Let_def mask drop_bit_eq_div a_def by simp
  then have "unat (csum_fold s) = 65535 - (a + a div 65536) mod 65536"
    by (simp only: unat_not_u16 unat_of_nat) simp
  moreover have "(a + a div 65536) mod 65536 = (if s = 0 then 0 else (s - 1) mod 65535 + 1)"
  proof (cases "s = 0")
    case False
    have mod: "(s - 1) mod 65535 = (a - 1) mod 65535"
    proof -
      have "s - 1 = (a - 1) + 65535 * (s div 65536)" using s False unfolding a_def by linarith
      then show ?thesis by simp
    qed
    have "a \<noteq> 0" using s False unfolding a_def by linarith
    show ?thesis
    proof (cases "a < 65536")
      case True
      then show ?thesis using mod \<open>a \<noteq> 0\<close> False by simp
    next
      case False': False
      have "a \<le> 131070" using hi lo unfolding a_def by linarith
      then have d: "a div 65536 = 1" and "(a - 1) mod 65535 = a - 1 - 65535"
        using False' by (auto simp: le_mod_geq intro!: div_nat_eqI)
      have "(a + 1) mod 65536 = a + 1 - 65536"
        using False' \<open>a \<le> 131070\<close> by (simp add: le_mod_geq)
      moreover have "a - 65535 = Suc (a - 65536)" using False' by simp
      ultimately show ?thesis using d mod \<open>(a - 1) mod 65535 = a - 1 - 65535\<close> False by simp
    qed
  qed (simp add: a_def)
  ultimately show ?thesis by simp
qed

text \<open>A receiver that checksums the data with the checksum in it gets 0.\<close>

lemma le_words_csum_word: "le_words [ucast c, ucast (drop_bit 8 c)] = [unat (c :: u16)]"
proof -
  have lo: "unat (ucast c :: u8) = unat c mod 256"
    by (simp add: unsigned_ucast_eq take_bit_eq_mod)
  have "unat c div 256 < 256" using unat_u16_less[of c] by (simp add: less_mult_imp_div_less)
  then have hi: "unat (ucast (drop_bit 8 c) :: u8) = unat c div 256"
    by (simp add: unsigned_ucast_eq take_bit_eq_mod drop_bit_eq_div unat_div_distrib)
  have "unat c mod 256 + 256 * (unat c div 256) = unat c" by simp
  then show ?thesis using lo hi by simp
qed

lemma sum_le_words: "2 * sum_list (le_words xs) \<le> 65535 * (length xs + 1)"
proof (induction xs rule: le_words.induct)
  case (1 a b bs)
  have "unat a \<le> 255" "unat b \<le> 255" using unat_u8_less[of a] unat_u8_less[of b] by linarith+
  then show ?case using 1 by simp
next
  case (2 a)
  have "unat a \<le> 255" using unat_u8_less[of a] by linarith
  then show ?case by simp
qed simp

theorem csum_verifies:
  assumes even: "even (length xs)" and len: "length xs + length ys < 65536"
  defines "c \<equiv> csum (xs @ [0, 0] @ ys)"
  shows "csum (xs @ [ucast c, ucast (drop_bit 8 c)] @ ys) = 0"
proof -
  define S where "S = sum_list (le_words xs) + sum_list (le_words ys)"
  have w: "le_words (xs @ [a, b] @ ys) = le_words xs @ le_words [a, b] @ le_words ys" for a b
    using even by (simp add: le_words_append)
  have S: "S < 2 ^ 31" using sum_le_words[of xs] sum_le_words[of ys] len unfolding S_def by simp
  have c: "unat c = (if S = 0 then 65535 else 65534 - (S - 1) mod 65535)"
    using csum_fold_nat[of S] S unfolding c_def csum_def fold_plus w by (simp add: S_def)
  have "csum (xs @ [ucast c, ucast (drop_bit 8 c)] @ ys) = csum_fold (S + unat c)"
    unfolding csum_def fold_plus w le_words_csum_word by (simp add: S_def ac_simps)
  moreover have "S + unat c < 2 ^ 32" using S unat_u16_less[of c] by (simp del: unat_u16_less)
  moreover have "S + unat c \<noteq> 0 \<and> (S + unat c - 1) mod 65535 = 65534"
  proof (cases "S = 0")
    case False
    define q r where "q = (S - 1) div 65535" and "r = (S - 1) mod 65535"
    have "S - 1 = 65535 * q + r" "r < 65535" by (simp_all add: q_def r_def)
    then have "S + unat c - 1 = 65534 + 65535 * q" using c False by (simp add: r_def [symmetric])
    then show ?thesis using False by simp
  qed (use c in simp)
  ultimately have "unat (csum (xs @ [ucast c, ucast (drop_bit 8 c)] @ ys)) = 0"
    using csum_fold_nat[of "S + unat c"] by simp
  then show ?thesis by (simp add: unat_eq_0)
qed

section \<open>Splitting strings\<close>

text \<open>\<^verbatim>\<open>string_to_vec\<close>: the tokens between runs of separator characters, as \<^verbatim>\<open>strtok\<close> finds them.\<close>

function string_to_vec :: "string \<Rightarrow> string \<Rightarrow> string list" where
  "string_to_vec s sp =
    (let p = dropWhile (\<lambda>c. c \<in> set sp) s in
     if p = [] then []
     else takeWhile (\<lambda>c. c \<notin> set sp) p # string_to_vec (dropWhile (\<lambda>c. c \<notin> set sp) p) sp)"
  by pat_completeness auto
termination
proof (relation "measure (\<lambda>(s, sp). length s)", goal_cases)
  case (2 s sp p)
  have "p \<noteq> []" "hd p \<notin> set sp" using 2 hd_dropWhile[of "\<lambda>c. c \<in> set sp" s] by auto
  then have "length (dropWhile (\<lambda>c. c \<notin> set sp) p) < length p"
    by (cases p) (auto simp: less_Suc_eq_le length_dropWhile_le)
  also have "length p \<le> length s" using 2 by (simp add: length_dropWhile_le)
  finally show ?case by simp
qed simp

declare string_to_vec.simps [simp del]

lemma string_to_vec_tokens: "t \<in> set (string_to_vec s sp) \<Longrightarrow> t \<noteq> [] \<and> set t \<inter> set sp = {}"
proof (induction s sp rule: string_to_vec.induct)
  case (1 s sp)
  let ?p = "dropWhile (\<lambda>c. c \<in> set sp) s"
  show ?case
  proof (cases "?p = []")
    case True
    then show ?thesis using "1.prems" by (subst (asm) string_to_vec.simps) simp
  next
    case False
    then have "takeWhile (\<lambda>c. c \<notin> set sp) ?p \<noteq> []"
      using hd_dropWhile[of "\<lambda>c. c \<in> set sp" s] by (cases ?p) auto
    moreover have "string_to_vec s sp = takeWhile (\<lambda>c. c \<notin> set sp) ?p #
        string_to_vec (dropWhile (\<lambda>c. c \<notin> set sp) ?p) sp"
      using False by (subst string_to_vec.simps) (simp add: Let_def)
    ultimately show ?thesis
      using "1.prems" "1.IH"[OF refl False] by (auto dest: set_takeWhileD)
  qed
qed

fun join_with :: "char \<Rightarrow> string list \<Rightarrow> string" where
  "join_with c [] = []"
| "join_with c [t] = t"
| "join_with c (t # ts) = t @ [c] @ join_with c ts"

lemma string_to_vec_step:
  assumes "t \<noteq> []" "c \<notin> set t" "rest = [] \<or> hd rest = c"
  shows "string_to_vec (t @ rest) [c] = t # string_to_vec rest [c]"
proof -
  have drop: "dropWhile (\<lambda>x. x \<in> set [c]) (t @ rest) = t @ rest"
    using assms(1,2) by (cases t) auto
  have take: "takeWhile (\<lambda>x. x \<notin> set [c]) (t @ rest) = t"
    using assms by (cases rest) (auto simp: takeWhile_append)
  have "dropWhile (\<lambda>x. x \<notin> set [c]) (t @ rest) = rest"
    using assms by (cases rest) (auto simp: dropWhile_append)
  then show ?thesis using assms(1) drop take by (subst string_to_vec.simps) (simp add: Let_def)
qed

lemma string_to_vec_skip: "string_to_vec (c # s) [c] = string_to_vec s [c]"
  by (subst (1 2) string_to_vec.simps) simp

lemma string_to_vec_Nil [simp]: "string_to_vec [] sp = []"
  by (subst string_to_vec.simps) simp

lemma string_to_vec_join [roundtrip_simps]:
  "(\<And>t. t \<in> set ts \<Longrightarrow> t \<noteq> [] \<and> c \<notin> set t) \<Longrightarrow> string_to_vec (join_with c ts) [c] = ts"
proof (induction c ts rule: join_with.induct)
  case (2 c t)
  then show ?case using string_to_vec_step[of t c "[]"] by simp
next
  case (3 c t u ts)
  have "string_to_vec (t @ c # join_with c (u # ts)) [c] = t # string_to_vec (c # join_with c (u # ts)) [c]"
    using 3 by (intro string_to_vec_step) auto
  then show ?case using 3 by (simp add: string_to_vec_skip)
qed simp

section \<open>Random numbers in a range\<close>

text \<open>\<open>rnd\<close> is the number drawn. \<open>None\<close>: the program stops, by its exit on an empty range or, for the
  range of all 32-bit numbers, by a division by zero.\<close>

definition random_between :: "u32 \<Rightarrow> u32 \<Rightarrow> u32 \<Rightarrow> u32 option" where
  "random_between rnd a b =
    (if a > b then None else if a = b then Some a
     else if b + 1 - a = 0 then None else Some (a + rnd mod (b + 1 - a)))"

lemma random_between_range:
  assumes "a \<le> b" "a \<noteq> 0 \<or> b \<noteq> -1"
  shows "\<exists>r. random_between rnd a b = Some r \<and> a \<le> r \<and> r \<le> b"
proof (cases "a = b")
  case False
  have ab: "unat a < unat b" using assms(1) False by (metis word_less_nat_alt order_le_neq_trans)
  have d: "b + 1 - a \<noteq> 0 \<and> unat (b + 1 - a) = unat b + 1 - unat a"
  proof -
    have s: "unat (b - a) = unat b - unat a" using assms(1) by (simp add: unat_sub)
    have ne: "(b - a) + 1 \<noteq> 0"
    proof
      assume "(b - a) + 1 = 0"
      then have "b - a = -1" by (simp add: add_eq_0_iff2)
      then have "unat b - unat a = 2 ^ 32 - 1"
        using s by (simp add: unsigned_minus_1_eq_mask mask_eq_exp_minus_1)
      then have "unat a = 0" "unat b = 2 ^ 32 - 1" using unat_u32_less[of b] by (simp_all del: unat_u32_less)
      then have "a = 0" "b - 0 = -1" using \<open>b - a = -1\<close> by (simp_all add: unat_eq_0)
      then show False using assms(2) by simp
    qed
    have e: "b + 1 - a = 1 + (b - a)" by simp
    have "unat (1 + (b - a)) = Suc (unat (b - a))" using ne by (intro unatSuc) (simp add: add.commute)
    then show ?thesis unfolding e using ab s ne by (simp add: add.commute)
  qed
  have m: "unat (rnd mod (b + 1 - a)) < unat b + 1 - unat a"
    using d ab by (simp add: unat_mod_distrib)
  then have "unat (a + rnd mod (b + 1 - a)) = unat a + unat (rnd mod (b + 1 - a))"
    using unat_u32_less[of b] ab by (subst unat_add_lem [symmetric]) (simp del: unat_u32_less)
  then show ?thesis
    using assms(1) False d m ab by (auto simp: random_between_def word_le_nat_alt not_less)
qed (simp add: random_between_def)

end
