(* ===== verification/Blob.thy ===== *)
theory Blob
  imports Bytes
begin

text \<open>
  The packer of mode 0, \<^verbatim>\<open>blob_encode_t\<close> and \<^verbatim>\<open>blob_decode_t\<close> of
  \<^verbatim>\<open>src/ref/UDPspeeder/fec_manager.cpp\<close>: several packets are written one after the other, each with its
  length, behind their number; the whole is cut into shards of equal length and parsed back from the
  concatenated shards. The encoder's buffer is a memory that keeps what earlier groups left in it. A
  result \<open>None\<close> of an operation with an assertion is the failed assertion.
\<close>

section \<open>Sizes\<close>

definition max_data_len :: nat where
  "max_data_len = 3600"

definition buf_len :: nat where
  "buf_len = max_data_len + 200"

definition max_blob_packet_num :: nat where
  "max_blob_packet_num = 30000"

definition max_fec_packet_num :: nat where
  "max_fec_packet_num = 255"

lemma size_consts [simp]:
  "max_data_len = 3600" "buf_len = 3800" "max_blob_packet_num = 30000" "max_fec_packet_num = 255"
  by (simp_all add: max_data_len_def buf_len_def max_blob_packet_num_def max_fec_packet_num_def)

section \<open>Memory\<close>

definition mem_write :: "nat \<Rightarrow> bytes \<Rightarrow> (nat \<Rightarrow> u8) \<Rightarrow> nat \<Rightarrow> u8" where
  "mem_write a bs m = (\<lambda>i. if a \<le> i \<and> i < a + length bs then bs ! (i - a) else m i)"

definition mem_read :: "nat \<Rightarrow> nat \<Rightarrow> (nat \<Rightarrow> u8) \<Rightarrow> bytes" where
  "mem_read a n m = map m [a..<a + n]"

lemma length_mem_read [simp, len_simps]: "length (mem_read a n m) = n"
  by (simp add: mem_read_def)

lemma mem_read_write [simp]: "mem_read a (length bs) (mem_write a bs m) = bs"
  by (rule nth_equalityI) (auto simp: mem_read_def mem_write_def)

lemma mem_read_write_before [simp]: "a + n \<le> b \<Longrightarrow> mem_read a n (mem_write b bs m) = mem_read a n m"
  by (auto simp: mem_read_def mem_write_def)

lemma mem_read_write_after [simp]: "b + length bs \<le> a \<Longrightarrow> mem_read a n (mem_write b bs m) = mem_read a n m"
  by (auto simp: mem_read_def mem_write_def)

lemma mem_read_add: "mem_read a (n + k) m = mem_read a n m @ mem_read (a + n) k m"
  using upt_add_eq_append[of a "a + n" k] by (simp add: mem_read_def add.assoc)

section \<open>\<^verbatim>\<open>blob_encode_t\<close>\<close>

record blob_encode =
  be_input_buf :: "nat \<Rightarrow> u8"
  be_current_len :: nat
  be_counter :: nat

definition blob_encode_clear :: "blob_encode \<Rightarrow> blob_encode" where
  "blob_encode_clear b = b\<lparr>be_counter := 0, be_current_len := 4\<rparr>"

definition get_num :: "blob_encode \<Rightarrow> nat" where
  "get_num b = be_counter b"

definition get_shard_len :: "nat \<Rightarrow> blob_encode \<Rightarrow> nat" where
  "get_shard_len n b = round_up_div (be_current_len b) n"

definition get_shard_len_next :: "nat \<Rightarrow> nat \<Rightarrow> blob_encode \<Rightarrow> nat" where
  "get_shard_len_next n next_packet_len b = round_up_div (be_current_len b + 2 + next_packet_len) n"

definition blob_buf_size :: nat where
  "blob_buf_size = (max_fec_packet_num + 5) * buf_len"

definition blob_encode_input :: "bytes \<Rightarrow> blob_encode \<Rightarrow> blob_encode option" where
  "blob_encode_input s b =
    (let len = length s in
     if \<not> be_current_len b + len + 2 + 100 < blob_buf_size then None
     else if \<not> len \<le> 65535 then None
     else if \<not> be_counter b + 1 \<le> max_blob_packet_num then None
     else Some (b\<lparr>be_counter := be_counter b + 1,
       be_input_buf := mem_write (be_current_len b + 2) s
         (mem_write (be_current_len b) (write_u16 (word_of_nat len)) (be_input_buf b)),
       be_current_len := be_current_len b + 2 + len\<rparr>))"

text \<open>The shards, their length, and the buffer with the number of packets in front.\<close>

definition blob_encode_output :: "nat \<Rightarrow> blob_encode \<Rightarrow> bytes list \<times> nat \<times> blob_encode" where
  "blob_encode_output n b =
    (let len = round_up_div (be_current_len b) n;
         buf = mem_write 0 (write_u32 (word_of_nat (be_counter b))) (be_input_buf b)
     in (map (\<lambda>i. mem_read (len * i) len buf) [0..<n], len, b\<lparr>be_input_buf := buf\<rparr>))"

section \<open>\<^verbatim>\<open>blob_decode_t\<close>\<close>

text \<open>Only the first \<^verbatim>\<open>current_len\<close> bytes of the decoder's buffer are ever read: the buffer is that list.\<close>

record blob_decode =
  bd_input_buf :: bytes
  bd_last_len :: int
  bd_counter :: nat

definition blob_decode_clear :: blob_decode where
  "blob_decode_clear = \<lparr>bd_input_buf = [], bd_last_len = -1, bd_counter = 0\<rparr>"

definition blob_decode_input :: "bytes \<Rightarrow> blob_decode \<Rightarrow> blob_decode option" where
  "blob_decode_input s b =
    (let len = length s in
     if bd_last_len b \<noteq> -1 \<and> bd_last_len b \<noteq> int len then None
     else if \<not> bd_counter b + 1 \<le> max_fec_packet_num then None
     else if \<not> length (bd_input_buf b) + len + 100 < blob_buf_size then None
     else Some \<lparr>bd_input_buf = bd_input_buf b @ s, bd_last_len = int len, bd_counter = bd_counter b + 1\<rparr>)"

fun blob_parse :: "nat \<Rightarrow> nat \<Rightarrow> bytes \<Rightarrow> bytes list option" where
  "blob_parse 0 pos buf = Some []"
| "blob_parse (Suc n) pos buf =
    (if pos + 2 > length buf then None
     else (let l = unat (read_u16 (drop pos buf)); pos = pos + 2 in
       if pos + l > length buf then None
       else (case blob_parse n (pos + l) buf of
           None \<Rightarrow> None
         | Some ps \<Rightarrow> Some (take l (drop pos buf) # ps))))"

text \<open>The number read is a signed one; \<open>None\<close> is the return value -1.\<close>

definition blob_decode_output :: "blob_decode \<Rightarrow> (int \<times> bytes list) option" where
  "blob_decode_output b =
    (if 4 > length (bd_input_buf b) then None
     else (let n = sint (read_u32 (bd_input_buf b)) in
       if n > int max_blob_packet_num then None
       else map_option (\<lambda>ps. (n, ps)) (blob_parse (nat n) 4 (bd_input_buf b))))"

section \<open>Pack, cut, join, parse\<close>

definition blob_body :: "bytes list \<Rightarrow> bytes" where
  "blob_body ps = concat (map (\<lambda>p. write_u16 (word_of_nat (length p)) @ p) ps)"

definition blob_ok :: "bytes list \<Rightarrow> blob_encode \<Rightarrow> bool" where
  "blob_ok ps b \<longleftrightarrow> be_counter b = length ps \<and> be_current_len b = 4 + length (blob_body ps) \<and>
     mem_read 4 (length (blob_body ps)) (be_input_buf b) = blob_body ps \<and>
     (\<forall>p \<in> set ps. length p \<le> 65535) \<and> length ps \<le> max_blob_packet_num \<and> be_current_len b < blob_buf_size"

lemma blob_body_snoc: "blob_body (ps @ [p]) = blob_body ps @ write_u16 (word_of_nat (length p)) @ p"
  by (simp add: blob_body_def)

lemma blob_ok_clear [inv_intros]: "blob_ok [] (blob_encode_clear b)"
  by (simp add: blob_ok_def blob_encode_clear_def blob_body_def mem_read_def blob_buf_size_def)

lemma blob_ok_input [inv_intros]:
  assumes ok: "blob_ok ps b" and inp: "blob_encode_input s b = Some b'"
  shows "blob_ok (ps @ [s]) b'"
proof -
  let ?B = "blob_body ps" and ?w = "write_u16 (word_of_nat (length s))"
  let ?m = "mem_write (4 + length ?B + 2) s (mem_write (4 + length ?B) ?w (be_input_buf b))"
  have b': "b' = b\<lparr>be_counter := length ps + 1, be_input_buf := ?m, be_current_len := 4 + length ?B + 2 + length s\<rparr>"
    "length s \<le> 65535" "length ps < max_blob_packet_num" "4 + length ?B + length s + 2 + 100 < blob_buf_size"
    using inp ok by (auto simp: blob_encode_input_def blob_ok_def Let_def split: if_splits)
  have "mem_read 4 (length ?B + (2 + length s)) ?m = mem_read 4 (length ?B) ?m @ mem_read (4 + length ?B) (2 + length s) ?m"
    by (rule mem_read_add)
  also have "mem_read (4 + length ?B) (2 + length s) ?m =
      mem_read (4 + length ?B) 2 ?m @ mem_read (4 + length ?B + 2) (length s) ?m"
    by (rule mem_read_add)
  finally have "mem_read 4 (length ?B + (2 + length s)) ?m = ?B @ ?w @ s"
    using ok mem_read_write[of "4 + length ?B" ?w "be_input_buf b"] by (simp add: blob_ok_def)
  then show ?thesis using ok b' by (auto simp: blob_ok_def blob_body_snoc)
qed

lemma blob_parse_body:
  assumes "\<forall>p \<in> set ps. length p \<le> 65535"
  shows "blob_parse (length ps) (length pre) (pre @ blob_body ps @ rest) = Some ps"
  using assms
proof (induction ps arbitrary: pre)
  case (Cons p ps)
  let ?w = "write_u16 (word_of_nat (length p))"
  have l: "unat (word_of_nat (length p) :: u16) = length p" using Cons.prems by (simp add: unat_of_nat)
  have "blob_parse (length ps) (length (pre @ ?w @ p)) ((pre @ ?w @ p) @ blob_body ps @ rest) = Some ps"
    using Cons by (intro Cons.IH) auto
  moreover have "pre @ blob_body (p # ps) @ rest = pre @ ?w @ p @ blob_body ps @ rest" by (simp add: blob_body_def)
  moreover have "length pre + 2 + length p = length (pre @ ?w @ p)" by simp
  ultimately show ?case by (simp add: l Let_def)
qed simp

lemma concat_shards:
  "concat (map (\<lambda>i. mem_read (len * i) len m) [0..<n]) = mem_read 0 (len * n) m"
proof (induction n)
  case (Suc n)
  have "mem_read 0 (len * n + len) m = mem_read 0 (len * n) m @ mem_read (len * n) len m"
    using mem_read_add[of 0 "len * n" len m] by simp
  then show ?case using Suc by (simp add: add.commute)
qed (simp add: mem_read_def)

text \<open>The concatenated shards start with the packed packets.\<close>

lemma blob_output_concat:
  assumes ok: "blob_ok ps b" and n: "0 < n" and out: "blob_encode_output n b = (shards, len, b')"
  shows "\<exists>rest. concat shards = write_u32 (word_of_nat (length ps)) @ blob_body ps @ rest"
    and "length shards = n" "\<And>s. s \<in> set shards \<Longrightarrow> length s = len" "len = get_shard_len n b"
proof -
  let ?B = "blob_body ps"
  let ?m = "mem_write 0 (write_u32 (word_of_nat (length ps))) (be_input_buf b)"
  have sh: "shards = map (\<lambda>i. mem_read (len * i) len ?m) [0..<n]" "len = round_up_div (4 + length ?B) n"
    using out ok by (auto simp: blob_encode_output_def blob_ok_def Let_def)
  have fits: "4 + length ?B \<le> len * n" using round_up_div_bounds(1)[OF n] sh(2) by simp
  then have "len * n = 4 + (length ?B + (len * n - 4 - length ?B))" by simp
  then have "concat shards = mem_read 0 4 ?m @ mem_read 4 (length ?B) ?m @ mem_read (4 + length ?B) (len * n - 4 - length ?B) ?m"
    unfolding sh(1) concat_shards by (metis mem_read_add add_0)
  moreover have "mem_read 0 4 ?m = write_u32 (word_of_nat (length ps))"
    using mem_read_write[of 0 "write_u32 (word_of_nat (length ps))" "be_input_buf b"] by simp
  moreover have "mem_read 4 (length ?B) ?m = ?B" using ok by (simp add: blob_ok_def)
  ultimately show "\<exists>rest. concat shards = write_u32 (word_of_nat (length ps)) @ ?B @ rest" by auto
  show "length shards = n" "\<And>s. s \<in> set shards \<Longrightarrow> length s = len" by (auto simp: sh(1))
  show "len = get_shard_len n b" using out by (auto simp: blob_encode_output_def get_shard_len_def Let_def)
qed

text \<open>Feeding shards of one length to the decoder.\<close>

fun blob_decode_inputs :: "bytes list \<Rightarrow> blob_decode \<Rightarrow> blob_decode option" where
  "blob_decode_inputs [] b = Some b"
| "blob_decode_inputs (s # ss) b = (case blob_decode_input s b of None \<Rightarrow> None | Some b \<Rightarrow> blob_decode_inputs ss b)"

lemma blob_decode_inputs_ok:
  assumes "\<forall>s \<in> set ss. length s = len" "bd_last_len b = -1 \<or> bd_last_len b = int len"
    "bd_counter b + length ss \<le> max_fec_packet_num" "length (bd_input_buf b) + length ss * len + 100 < blob_buf_size"
  shows "\<exists>b'. blob_decode_inputs ss b = Some b' \<and> bd_input_buf b' = bd_input_buf b @ concat ss"
  using assms
proof (induction ss arbitrary: b)
  case (Cons s ss)
  let ?b = "\<lparr>bd_input_buf = bd_input_buf b @ s, bd_last_len = int len, bd_counter = bd_counter b + 1\<rparr>"
  have "blob_decode_input s b = Some ?b"
    using Cons.prems by (auto simp: blob_decode_input_def Let_def)
  moreover have "\<exists>b'. blob_decode_inputs ss ?b = Some b' \<and> bd_input_buf b' = bd_input_buf ?b @ concat ss"
    using Cons.prems by (intro Cons.IH) auto
  ultimately show ?case by auto
qed simp

lemma blob_decode_output_packed:
  assumes "bd_input_buf b = write_u32 (word_of_nat (length ps)) @ blob_body ps @ rest"
    "length ps \<le> max_blob_packet_num" "\<forall>p \<in> set ps. length p \<le> 65535"
  shows "blob_decode_output b = Some (int (length ps), ps)"
proof -
  let ?h = "write_u32 (word_of_nat (length ps))"
  have n: "sint (word_of_nat (length ps) :: u32) = int (length ps)"
    using assms(2) by (simp add: signed_of_nat signed_take_bit_int_eq_self_iff)
  have "blob_parse (length ps) (length ?h) (?h @ blob_body ps @ rest) = Some ps"
    using assms(3) by (rule blob_parse_body)
  then show ?thesis using assms n by (simp add: blob_decode_output_def Let_def)
qed

end
