(* ===== verification/Double.thy ===== *)
theory Double
  imports Prelude
begin

text \<open>
  Values of type \<^verbatim>\<open>double\<close> are rational numbers; every operation on them is the exact one followed by
  \<open>f64\<close>, rounding to 53 significant bits, ties to even, as IEEE 754 prescribes. The program's values stay
  far from overflow and from subnormal numbers, which \<open>f64\<close> does not have. Conversion to \<^verbatim>\<open>int\<close>
  truncates.
\<close>

section \<open>Rounding\<close>

function flog_up :: "rat \<Rightarrow> nat" where
  "flog_up x = (if x < 2 then 0 else Suc (flog_up (x / 2)))"
  by pat_completeness auto
termination
proof (relation "measure (\<lambda>x. nat \<lfloor>x\<rfloor>)", goal_cases)
  case (2 x)
  then have "\<lfloor>x / 2\<rfloor> < \<lfloor>x\<rfloor>" "0 < \<lfloor>x\<rfloor>" by linarith+
  then show ?case by simp
qed simp

function flog_down :: "rat \<Rightarrow> nat" where
  "flog_down x = (if x \<le> 0 \<or> 1 \<le> x then 0 else Suc (flog_down (x * 2)))"
  by pat_completeness auto
termination
proof (relation "measure (\<lambda>x. nat \<lceil>1 / x\<rceil>)", goal_cases)
  case (2 x)
  then have x: "0 < x" "x < 1" by auto
  define y where "y = 1 / x"
  have "1 < y" using x by (simp add: y_def field_simps)
  then have y2: "2 \<le> \<lceil>y\<rceil>" using less_ceiling_iff[of 1 y] by simp
  then have "y / 2 \<le> of_int (\<lceil>y\<rceil> - 1)" using le_of_int_ceiling[of y] by linarith
  then have "\<lceil>y / 2\<rceil> \<le> \<lceil>y\<rceil> - 1" by (rule ceiling_le)
  moreover have "1 / (x * 2) = y / 2" by (simp add: y_def)
  ultimately have "\<lceil>1 / (x * 2)\<rceil> < \<lceil>1 / x\<rceil>" "0 < \<lceil>1 / x\<rceil>" using y2 by (simp_all only: y_def [symmetric])
  then show ?case by simp
qed simp

declare flog_up.simps [simp del] flog_down.simps [simp del]

text \<open>The exponent of the leading bit of a positive number.\<close>

definition flog2 :: "rat \<Rightarrow> int" where
  "flog2 x = (if 1 \<le> x then int (flog_up x) else - int (flog_down x))"

definition two_powi :: "int \<Rightarrow> rat" where
  "two_powi e = (if 0 \<le> e then 2 ^ nat e else 1 / 2 ^ nat (- e))"

definition round_even :: "rat \<Rightarrow> int" where
  "round_even y = (let f = \<lfloor>y\<rfloor>; d = y - of_int f in
     if d < 1 / 2 then f else if 1 / 2 < d then f + 1 else if even f then f else f + 1)"

definition f64 :: "rat \<Rightarrow> rat" where
  "f64 x = (if x = 0 then 0 else
     (let u = two_powi (flog2 \<bar>x\<bar> - 52) in of_int (round_even (x / u)) * u))"

text \<open>Conversion to an integer type drops the fraction.\<close>

definition trunc :: "rat \<Rightarrow> int" where
  "trunc x = (if 0 \<le> x then \<lfloor>x\<rfloor> else \<lceil>x\<rceil>)"

section \<open>Facts about rounding\<close>

lemma two_powi_alt: "two_powi e = 2 powi e"
  by (simp add: two_powi_def power_int_def inverse_eq_divide power_one_over)

lemma two_powi_pos [simp]: "0 < two_powi e"
  by (simp add: two_powi_alt)

lemma two_powi_add: "two_powi (a + b) = two_powi a * two_powi b"
  by (simp add: two_powi_alt power_int_add)

lemma two_powi_mono: "a \<le> b \<Longrightarrow> two_powi a \<le> two_powi b"
  by (simp add: two_powi_alt power_int_increasing)

lemma flog_up_bounds: "1 \<le> x \<Longrightarrow> 2 ^ flog_up x \<le> x \<and> x < 2 ^ Suc (flog_up x)"
proof (induction x rule: flog_up.induct)
  case (1 x)
  then show ?case
    by (cases "x < 2") (subst flog_up.simps; subst (2) flog_up.simps; auto simp: field_simps)+
qed

lemma flog_down_bounds: "0 < x \<Longrightarrow> x < 1 \<Longrightarrow> 1 \<le> x * 2 ^ flog_down x \<and> x * 2 ^ flog_down x < 2"
proof (induction x rule: flog_down.induct)
  case (1 x)
  have s: "flog_down x = Suc (flog_down (x * 2))" using 1 by (subst flog_down.simps) auto
  show ?case
  proof (cases "x * 2 < 1")
    case True
    then have "1 \<le> x * 2 * 2 ^ flog_down (x * 2) \<and> x * 2 * 2 ^ flog_down (x * 2) < 2"
      using 1 by (intro "1.IH") auto
    then show ?thesis by (simp add: s mult.assoc)
  next
    case False
    then have "flog_down (x * 2) = 0" by (subst flog_down.simps) auto
    then show ?thesis using False 1 by (simp add: s)
  qed
qed

lemma flog2_bounds: "0 < x \<Longrightarrow> two_powi (flog2 x) \<le> x \<and> x < two_powi (flog2 x + 1)"
proof (cases "1 \<le> x")
  case True
  then show ?thesis using flog_up_bounds[of x] by (simp add: flog2_def two_powi_def nat_add_distrib)
next
  case False
  assume "0 < x"
  note b = flog_down_bounds[OF \<open>0 < x\<close>]
  have neg: "two_powi (- int n) = 1 / 2 ^ n" for n
    by (cases "n = 0") (simp_all add: two_powi_def)
  have one: "two_powi (1 - int n) = 2 / 2 ^ n" for n
    using two_powi_add[of 1 "- int n"] neg[of n] by (simp add: two_powi_alt)
  have "1 \<le> x * 2 ^ flog_down x" "x * 2 ^ flog_down x < 2" using b False by auto
  then have "1 / 2 ^ flog_down x \<le> x \<and> x < 2 / 2 ^ flog_down x" by (simp add: divide_le_eq less_divide_eq)
  then show ?thesis using neg one False by (simp add: flog2_def)
qed

lemma round_even_error: "\<bar>of_int (round_even y) - y\<bar> \<le> 1 / 2"
proof -
  have "of_int \<lfloor>y\<rfloor> \<le> y" "y < of_int \<lfloor>y\<rfloor> + 1" by linarith+
  then show ?thesis unfolding round_even_def Let_def by (simp add: abs_le_iff)
qed

lemma round_even_of_int [simp]: "round_even (of_int n) = n"
  by (simp add: round_even_def)

lemma round_even_mono: "x \<le> y \<Longrightarrow> round_even x \<le> round_even y"
proof (cases "\<lfloor>x\<rfloor> = \<lfloor>y\<rfloor>")
  case True
  assume "x \<le> y"
  then show ?thesis using True unfolding round_even_def Let_def by (auto split: if_splits)
next
  case False
  assume "x \<le> y"
  then have "\<lfloor>x\<rfloor> + 1 \<le> \<lfloor>y\<rfloor>" using False floor_mono[of x y] by linarith
  moreover have "round_even x \<le> \<lfloor>x\<rfloor> + 1" "\<lfloor>y\<rfloor> \<le> round_even y" by (auto simp: round_even_def Let_def)
  ultimately show ?thesis by linarith
qed

lemma f64_0 [simp]: "f64 0 = 0"
  by (simp add: f64_def)

text \<open>The relative error is at most \<open>2\<^sup>-\<^sup>5\<^sup>3\<close>.\<close>

lemma f64_error: "\<bar>f64 x - x\<bar> \<le> \<bar>x\<bar> * two_powi (-53)"
proof (cases "x = 0")
  case False
  let ?u = "two_powi (flog2 \<bar>x\<bar> - 52)"
  have u: "0 < ?u" by simp
  have "f64 x - x = (of_int (round_even (x / ?u)) - x / ?u) * ?u"
    using False less_imp_neq[OF u] by (simp add: f64_def Let_def left_diff_distrib)
  then have "\<bar>f64 x - x\<bar> = \<bar>of_int (round_even (x / ?u)) - x / ?u\<bar> * ?u"
    using u by (simp only: abs_mult abs_of_pos)
  also have "\<dots> \<le> 1 / 2 * ?u" by (rule mult_right_mono[OF round_even_error less_imp_le[OF u]])
  also have "\<dots> = two_powi (flog2 \<bar>x\<bar>) * two_powi (-53)"
    using two_powi_add[of "flog2 \<bar>x\<bar>" "-52"] two_powi_add[of "-1" "-52"] by (simp add: two_powi_def)
  also have "\<dots> \<le> \<bar>x\<bar> * two_powi (-53)" using flog2_bounds[of "\<bar>x\<bar>"] False
    by (intro mult_right_mono) (auto simp: less_imp_le)
  finally show ?thesis .
qed simp

lemma f64_times_ulp:
  assumes "x \<noteq> 0" "x = of_int n * two_powi (flog2 \<bar>x\<bar> - 52)"
  shows "f64 x = x"
proof -
  let ?u = "two_powi (flog2 \<bar>x\<bar> - 52)"
  have "x / ?u = of_int n" using less_imp_neq[OF two_powi_pos, of "flog2 \<bar>x\<bar> - 52"] assms(2) by (simp add: divide_eq_eq)
  then show ?thesis using assms by (simp add: f64_def Let_def)
qed

text \<open>Integers up to \<open>2\<^sup>5\<^sup>3\<close> are exact.\<close>

lemma f64_of_int:
  assumes "\<bar>n\<bar> < 2 ^ 53"
  shows "f64 (of_int n) = of_int n"
proof (cases "n = 0")
  case False
  define e where "e = flog2 \<bar>of_int n\<bar>"
  have pos: "0 < \<bar>of_int n :: rat\<bar>" using False by simp
  note b = flog2_bounds[OF pos, folded e_def]
  have "\<bar>of_int n :: rat\<bar> < 2 ^ 53"
    using assms by (metis of_int_abs of_int_less_iff of_int_numeral of_int_power)
  then have "two_powi e < two_powi 53" using b by (simp add: two_powi_def)
  then have "e < 53" using two_powi_mono[of 53 e] by linarith
  moreover have "0 \<le> e"
  proof (rule ccontr)
    assume "\<not> 0 \<le> e"
    then have "two_powi (e + 1) \<le> two_powi 0" by (intro two_powi_mono) simp
    then have "\<bar>of_int n :: rat\<bar> < 1" using b by (simp add: two_powi_def)
    then show False using False by linarith
  qed
  ultimately have e: "0 \<le> e" "e \<le> 52" by auto
  have "two_powi (52 - e) * two_powi (e - 52) = two_powi 0" by (simp flip: two_powi_add)
  moreover have "two_powi (52 - e) = of_int (2 ^ nat (52 - e))" using e by (simp add: two_powi_def)
  ultimately have "of_int n = of_int (n * 2 ^ nat (52 - e)) * two_powi (e - 52)"
    by (simp add: two_powi_def mult.assoc)
  from f64_times_ulp[OF _ this[unfolded e_def]] show ?thesis using False by simp
qed simp

lemma f64_of_nat: "n < 2 ^ 53 \<Longrightarrow> f64 (of_nat n) = of_nat n"
  using f64_of_int[of "int n"] by simp

lemma f64_between_powers:
  assumes "0 < x"
  shows "two_powi (flog2 x) \<le> f64 x \<and> f64 x \<le> two_powi (flog2 x + 1)"
proof -
  let ?u = "two_powi (flog2 x - 52)"
  have p: "two_powi (flog2 x) = of_int (2 ^ 52) * ?u" "two_powi (flog2 x + 1) = of_int (2 ^ 53) * ?u"
  proof -
    have "two_powi 52 = of_int (2 ^ 52)" "two_powi 53 = of_int (2 ^ 53)" by (simp_all add: two_powi_def)
    moreover have "flog2 x = 52 + (flog2 x - 52)" "flog2 x + 1 = 53 + (flog2 x - 52)" by simp_all
    ultimately show "two_powi (flog2 x) = of_int (2 ^ 52) * ?u" "two_powi (flog2 x + 1) = of_int (2 ^ 53) * ?u"
      by (metis two_powi_add)+
  qed
  have "of_int (2 ^ 52) \<le> x / ?u" "x / ?u \<le> of_int (2 ^ 53)"
    using flog2_bounds[OF assms] unfolding p by (simp_all add: pos_le_divide_eq pos_divide_le_eq)
  from this[THEN round_even_mono] have "2 ^ 52 \<le> round_even (x / ?u)" "round_even (x / ?u) \<le> 2 ^ 53"
    unfolding round_even_of_int by simp_all
  then show ?thesis
    using assms unfolding p f64_def Let_def by (auto intro!: mult_right_mono less_imp_le simp flip: of_int_le_iff)
qed

lemma f64_pos: "0 < x \<Longrightarrow> 0 < f64 x"
  using f64_between_powers[of x] two_powi_pos[of "flog2 x"] by linarith

lemma f64_nonneg: "0 \<le> x \<Longrightarrow> 0 \<le> f64 x"
  using f64_pos[of x] by (cases "x = 0") auto

lemma f64_mono_pos:
  assumes "0 < x" "x \<le> y"
  shows "f64 x \<le> f64 y"
proof (cases "flog2 x = flog2 y")
  case True
  let ?u = "two_powi (flog2 x - 52)"
  have "x / ?u \<le> y / ?u" using assms by (intro divide_right_mono) (auto simp: less_imp_le)
  then have "round_even (x / ?u) \<le> round_even (y / ?u)" by (rule round_even_mono)
  then show ?thesis
    using assms True unfolding f64_def Let_def by (auto intro!: mult_right_mono less_imp_le simp flip: of_int_le_iff)
next
  case False
  have y: "0 < y" using assms by simp
  have "two_powi (flog2 x) < two_powi (flog2 y + 1)" using flog2_bounds[OF assms(1)] flog2_bounds[OF y] assms(2) by linarith
  then have "flog2 x < flog2 y + 1" using two_powi_mono[of "flog2 y + 1" "flog2 x"] by linarith
  then have "two_powi (flog2 x + 1) \<le> two_powi (flog2 y)" using False by (intro two_powi_mono) linarith
  then show ?thesis using f64_between_powers[OF assms(1)] f64_between_powers[OF y] by linarith
qed

text \<open>For numbers of moderate size the error is negligible.\<close>

lemma f64_close:
  assumes "\<bar>x\<bar> \<le> 1000"
  shows "\<bar>f64 x - x\<bar> \<le> 1 / 1000000000000"
proof -
  have "\<bar>x\<bar> * two_powi (-53) \<le> 1000 * two_powi (-53)"
    using assms by (intro mult_right_mono) (auto simp: less_imp_le)
  also have "\<dots> \<le> 1 / 1000000000000" by (simp add: two_powi_def)
  finally show ?thesis using f64_error[of x] by linarith
qed

lemma trunc_eq: "0 \<le> n \<Longrightarrow> of_int n \<le> x \<Longrightarrow> x < of_int n + 1 \<Longrightarrow> trunc x = n"
proof -
  assume n: "0 \<le> n" "of_int n \<le> x" "x < of_int n + 1"
  then have "0 \<le> x" by (meson of_int_0_le_iff order_trans)
  moreover have "\<lfloor>x\<rfloor> = n" using n by (simp add: floor_unique)
  ultimately show ?thesis by (simp add: trunc_def)
qed

end
