(* ===== verification/Fec_Param.thy ===== *)
theory Fec_Param
  imports Blob Double
begin

text \<open>
  The parameters of the FEC layer, \<^verbatim>\<open>fec_parameter_t\<close> of \<^verbatim>\<open>src/ref/UDPspeeder/fec_manager.h\<close>: the table of
  how many redundant packets go with a group of \<open>1, 2, \<dots>\<close> data packets, its parser \<^verbatim>\<open>rs_from_str\<close> with
  the interpolation between the given points, its printer, and copying. Warnings are not modelled.
  \<open>None\<close> is the return value -1 or a failed assertion.
\<close>

section \<open>Scanning and printing decimal numbers\<close>

definition is_digit :: "char \<Rightarrow> bool" where
  "is_digit c \<longleftrightarrow> 48 \<le> (of_char c :: nat) \<and> (of_char c :: nat) \<le> 57"

definition is_space :: "char \<Rightarrow> bool" where
  "is_space c \<longleftrightarrow> (of_char c :: nat) = 32 \<or> 9 \<le> (of_char c :: nat) \<and> (of_char c :: nat) \<le> 13"

definition digits_val :: "string \<Rightarrow> nat" where
  "digits_val ds = foldl (\<lambda>v c. 10 * v + (of_char c - 48)) 0 ds"

text \<open>\<^verbatim>\<open>%d\<close> of \<^verbatim>\<open>sscanf\<close>: a 64-bit conversion that saturates, stored in 32 bits.\<close>

definition to_int32 :: "int \<Rightarrow> int" where
  "to_int32 v = sint (word_of_int (max (- (2 ^ 63)) (min (2 ^ 63 - 1) v)) :: 32 word)"

definition scan_int :: "string \<Rightarrow> (int \<times> string) option" where
  "scan_int s =
    (let s = dropWhile is_space s;
         (neg, s) = (case s of c # r \<Rightarrow> if c = CHR ''-'' then (True, r) else if c = CHR ''+'' then (False, r) else (False, s)
                      | [] \<Rightarrow> (False, s));
         ds = takeWhile is_digit s
     in if ds = [] then None
        else Some (to_int32 (if neg then - int (digits_val ds) else int (digits_val ds)), dropWhile is_digit s))"

definition scan_pair :: "string \<Rightarrow> (int \<times> int) option" where
  "scan_pair s =
    (case scan_int s of
       Some (x, c # r) \<Rightarrow> if c = CHR '':'' then (case scan_int r of Some (y, _) \<Rightarrow> Some (x, y) | None \<Rightarrow> None) else None
     | _ \<Rightarrow> None)"

fun dec_str :: "nat \<Rightarrow> string" where
  "dec_str n = (if n < 10 then [char_of (48 + n)] else dec_str (n div 10) @ [char_of (48 + n mod 10)])"

declare dec_str.simps [simp del]

section \<open>Parameters\<close>

record rs_parameter =
  rs_x :: u8
  rs_y :: u8

record fec_parameter =
  fp_version :: nat
  fp_mtu :: nat
  fp_queue_len :: nat
  fp_timeout :: nat
  fp_mode :: nat
  fp_rs_cnt :: nat
  fp_rs_par :: "rs_parameter list"

definition set_rs :: "nat \<Rightarrow> nat \<Rightarrow> nat \<Rightarrow> rs_parameter list \<Rightarrow> rs_parameter list" where
  "set_rs i x y par = par[i := \<lparr>rs_x = word_of_nat x, rs_y = word_of_nat y\<rparr>]"

text \<open>The points of the string. The sum of the two numbers is computed exactly: two numbers that are in range for \<^verbatim>\<open>int\<close> with a sum
  that is not make the behaviour of the code undefined, and are refused here.\<close>

fun rs_parse :: "string list \<Rightarrow> (nat \<times> nat) list option" where
  "rs_parse [] = Some []"
| "rs_parse (t # ts) =
    (case scan_pair t of
       None \<Rightarrow> None
     | Some (x, y) \<Rightarrow>
         if x < 1 \<or> y < 0 \<or> x + y > int max_fec_packet_num then None
         else map_option (\<lambda>ps. (nat x, nat y) # ps) (rs_parse ts))"

fun rs_ascending :: "(nat \<times> nat) list \<Rightarrow> bool" where
  "rs_ascending (a # b # ps) \<longleftrightarrow> \<not> fst b \<le> fst a \<and> rs_ascending (b # ps)"
| "rs_ascending _ \<longleftrightarrow> True"

text \<open>The interpolated redundancy, in floating point as the code computes it.\<close>

definition rs_interp :: "nat \<times> nat \<Rightarrow> nat \<times> nat \<Rightarrow> nat \<Rightarrow> int" where
  "rs_interp pre now in_x =
    (let distance = of_int (int (fst now) - int (fst pre));
         prod = of_int ((int (snd now) - int (snd pre)) * (int in_x - int (fst pre)))
     in trunc (f64 (f64 (of_nat (snd pre) + f64 (prod / distance)) + f64 (9999 / 10000))))"

definition rs_fill_between :: "nat \<times> nat \<Rightarrow> nat \<times> nat \<Rightarrow> rs_parameter list \<Rightarrow> rs_parameter list" where
  "rs_fill_between pre now par =
    fold (\<lambda>in_x par.
        let in_y = rs_interp pre now in_x;
            in_y = (if int in_x + in_y > int max_fec_packet_num then int max_fec_packet_num - int in_x else in_y)
        in set_rs (in_x - 1) in_x (nat in_y) par)
      [fst pre + 1..<fst now] (set_rs (fst now - 1) (fst now) (snd now) par)"

fun rs_fill :: "(nat \<times> nat) list \<Rightarrow> rs_parameter list \<Rightarrow> rs_parameter list" where
  "rs_fill (pre # now # ps) par = rs_fill (now # ps) (rs_fill_between pre now par)"
| "rs_fill _ par = par"

definition rs_fill_first :: "nat \<times> nat \<Rightarrow> rs_parameter list \<Rightarrow> rs_parameter list" where
  "rs_fill_first first par = fold (\<lambda>i. set_rs (i - 1) i (snd first)) [1..<fst first + 1] par"

definition rs_from_str :: "string \<Rightarrow> fec_parameter \<Rightarrow> fec_parameter option" where
  "rs_from_str s p =
    (let str_vec = string_to_vec s '','' in
     if length str_vec < 1 then None
     else (case rs_parse str_vec of
         None \<Rightarrow> None
       | Some par_vec \<Rightarrow>
           if \<not> rs_ascending par_vec then None
           else Some (p\<lparr>fp_rs_par := rs_fill par_vec (rs_fill_first (hd par_vec) (fp_rs_par p)),
                        fp_rs_cnt := fst (last par_vec)\<rparr>)))"

definition rs_to_str :: "fec_parameter \<Rightarrow> string option" where
  "rs_to_str p =
    (if \<not> fp_rs_cnt p \<ge> 1 then None
     else Some (fold (\<lambda>i s. (if i \<noteq> 0 then s @ '','' else s) @
          dec_str (unat (rs_x (fp_rs_par p ! i))) @ '':'' @ dec_str (unat (rs_y (fp_rs_par p ! i))))
        [0..<fp_rs_cnt p] []))"

definition get_tail :: "fec_parameter \<Rightarrow> rs_parameter option" where
  "get_tail p = (if \<not> fp_rs_cnt p \<ge> 1 then None else Some (fp_rs_par p ! (fp_rs_cnt p - 1)))"

definition copy_fec :: "fec_parameter \<Rightarrow> fec_parameter \<Rightarrow> fec_parameter option" where
  "copy_fec other p =
    (if \<not> fp_rs_cnt other \<ge> 1 then None
     else Some (p\<lparr>fp_rs_cnt := fp_rs_cnt other,
       fp_rs_par := overwrite 0 (take (fp_rs_cnt other) (fp_rs_par other)) (fp_rs_par p)\<rparr>))"

definition clone :: "fec_parameter \<Rightarrow> fec_parameter \<Rightarrow> fec_parameter option" where
  "clone other p =
    copy_fec other (p\<lparr>fp_version := fp_version other, fp_mtu := fp_mtu other, fp_queue_len := fp_queue_len other,
      fp_timeout := fp_timeout other, fp_mode := fp_mode other\<rparr>)"

section \<open>Interpolation rounds up\<close>

lemma ceiling_fraction:
  assumes "0 < d" "d \<le> 255"
  shows "of_int \<lceil>of_int m / of_nat d :: rat\<rceil> - 1 + 1 / 255 \<le> (of_int m / of_nat d :: rat)"
proof -
  let ?w = "of_int m / of_nat d :: rat" and ?n = "\<lceil>of_int m / of_nat d :: rat\<rceil>"
  have "of_int (?n - 1) < ?w" by linarith
  then have "of_int ((?n - 1) * int d) < (of_int m :: rat)" using assms(1) by (simp add: pos_less_divide_eq)
  then have "(?n - 1) * int d + 1 \<le> m" by linarith
  then have "of_int ((?n - 1) * int d + 1) \<le> (of_int m :: rat)" by (simp only: of_int_le_iff)
  then have "(of_int (?n - 1) * of_nat d + 1) / of_nat d \<le> ?w" using assms(1) by (intro divide_right_mono) auto
  then have "of_int (?n - 1) + 1 / of_nat d \<le> ?w" using assms(1) by (simp add: add_divide_distrib)
  moreover have "1 / 255 \<le> 1 / (of_nat d :: rat)" using assms by (simp add: frac_le)
  ultimately show ?thesis by linarith
qed

lemma rs_interp_exact:
  assumes x: "fst pre < in_x" "in_x < fst now" "fst now \<le> 255" and y: "snd pre \<le> 255" "snd now \<le> 255"
  defines "w \<equiv> of_nat (snd pre) + of_int ((int (snd now) - int (snd pre)) * (int in_x - int (fst pre))) /
      (of_nat (fst now - fst pre) :: rat)"
  shows "rs_interp pre now in_x = \<lceil>w\<rceil>" and "0 \<le> w" and "w \<le> 255"
proof -
  define d t where "d = fst now - fst pre" and "t = in_x - fst pre"
  have d: "0 < d" "d \<le> 255" "t < d" "int in_x - int (fst pre) = int t" "int (fst now) - int (fst pre) = int d"
    using x by (auto simp: d_def t_def)
  define v where "v = of_int ((int (snd now) - int (snd pre)) * int t) / (of_nat d :: rat)"
  have wv: "w = of_nat (snd pre) + v" by (simp add: w_def v_def d d_def [symmetric])
  define m where "m = snd pre * (d - t) + snd now * t"
  have m: "int m = int (snd pre) * int d + (int (snd now) - int (snd pre)) * int t"
  proof -
    have "int (d - t) = int d - int t" using d(3) by simp
    then show ?thesis unfolding m_def by (simp only: of_nat_add of_nat_mult) (simp add: algebra_simps)
  qed
  have wm: "w = of_int (int m) / of_nat d" using d(1) unfolding wv v_def m by (simp add: field_simps)
  have "m \<le> 255 * (d - t) + 255 * t" unfolding m_def using y by (intro add_mono mult_right_mono) auto
  also have "\<dots> = 255 * d" using d(3) by (simp flip: distrib_left)
  finally have "(of_nat m :: rat) \<le> 255 * of_nat d" by (simp flip: of_nat_mult of_nat_le_iff)
  then show w: "0 \<le> w" "w \<le> 255" using d(1) unfolding wm by (simp_all add: divide_le_eq)
  have py: "of_nat (snd pre) \<le> (255 :: rat)" using y(1) by (simp flip: of_nat_le_iff)
  have v: "\<bar>v\<bar> \<le> 255" using w py of_nat_0_le_iff[where 'a = rat, of "snd pre"] unfolding wv by linarith
  define a b c z where "a = f64 v" and "b = f64 (of_nat (snd pre) + a)" and "c = f64 (9999 / 10000)" and "z = f64 (b + c)"
  have ea: "\<bar>a - v\<bar> \<le> 1 / 1000000000000" unfolding a_def using v by (intro f64_close) linarith
  have eb: "\<bar>b - (of_nat (snd pre) + a)\<bar> \<le> 1 / 1000000000000"
    unfolding b_def using ea w wv by (intro f64_close) linarith
  have ec: "\<bar>c - 9999 / 10000\<bar> \<le> 1 / 1000000000000" unfolding c_def by (intro f64_close) simp
  have ez: "\<bar>z - (b + c)\<bar> \<le> 1 / 1000000000000"
    unfolding z_def using ea eb ec w wv by (intro f64_close) linarith
  have close: "\<bar>z - (w + 9999 / 10000)\<bar> \<le> 1 / 100000" using ea eb ec ez wv by linarith
  have cw: "of_int \<lceil>w\<rceil> - 1 + 1 / 255 \<le> w" unfolding wm by (rule ceiling_fraction[OF d(1,2)])
  have "trunc z = \<lceil>w\<rceil>"
    by (rule trunc_eq) (use w(1) cw close le_of_int_ceiling[of w] in linarith)+
  then show "rs_interp pre now in_x = \<lceil>w\<rceil>"
    unfolding rs_interp_def Let_def d by (simp add: z_def b_def a_def c_def v_def)
qed

section \<open>What \<^verbatim>\<open>rs_from_str\<close> fills in\<close>

text \<open>The intended redundancy for \<open>x\<close> data packets: constant up to the first point, then the line between
  neighbouring points, rounded up and cut off at the limit of the codec.\<close>

fun rs_reference :: "(nat \<times> nat) list \<Rightarrow> nat \<Rightarrow> nat" where
  "rs_reference (pre # now # ps) x =
    (if x \<le> fst pre then snd pre
     else if x < fst now then
       min (255 - x) (nat \<lceil>of_nat (snd pre) + of_int ((int (snd now) - int (snd pre)) * (int x - int (fst pre))) /
           (of_nat (fst now - fst pre) :: rat)\<rceil>)
     else rs_reference (now # ps) x)"
| "rs_reference [p] x = snd p"
| "rs_reference [] x = 0"

definition rs_entry :: "nat \<Rightarrow> nat \<Rightarrow> rs_parameter" where
  "rs_entry x y = \<lparr>rs_x = word_of_nat x, rs_y = word_of_nat y\<rparr>"

definition rs_valid :: "(nat \<times> nat) list \<Rightarrow> bool" where
  "rs_valid ps \<longleftrightarrow> (\<forall>(x, y) \<in> set ps. 1 \<le> x \<and> x + y \<le> 255)"

lemma rs_valid_Cons: "rs_valid (p # ps) \<longleftrightarrow> 1 \<le> fst p \<and> fst p + snd p \<le> 255 \<and> rs_valid ps"
  by (auto simp: rs_valid_def split: prod.splits)

lemma rs_parse_valid: "rs_parse ts = Some ps \<Longrightarrow> rs_valid ps \<and> length ps = length ts"
proof (induction ts arbitrary: ps)
  case (Cons t ts)
  then obtain x y qs where x: "scan_pair t = Some (x, y)" "1 \<le> x" "0 \<le> y" "x + y \<le> 255"
      "rs_parse ts = Some qs" "ps = (nat x, nat y) # qs"
    by (auto simp: not_less split: option.splits if_splits)
  then have "1 \<le> nat x" "nat x + nat y \<le> 255" by linarith+
  then show ?case using Cons.IH[OF x(5)] x(6) by (simp add: rs_valid_Cons)
qed (simp add: rs_valid_def)

lemma set_rs_entry: "set_rs i x y par = par[i := rs_entry x y]"
  by (simp add: set_rs_def rs_entry_def)

lemma rs_interp_cut:
  assumes "fst pre < in_x" "in_x < fst now" "fst now \<le> 255" "snd pre \<le> 255" "snd now \<le> 255"
  shows "nat (if int in_x + rs_interp pre now in_x > int max_fec_packet_num
      then int max_fec_packet_num - int in_x else rs_interp pre now in_x) = rs_reference [pre, now] in_x"
proof -
  note e = rs_interp_exact[OF assms]
  have "0 \<le> rs_interp pre now in_x" using e(1,2) by (simp add: le_ceiling_iff)
  then show ?thesis using assms(1-3) e(1) by (auto simp: min_def)
qed

lemma rs_fill_between_nth:
  assumes "length par = 265" "fst pre < fst now" "fst now \<le> 255" "snd pre \<le> 255" "snd now \<le> 255"
  shows "length (rs_fill_between pre now par) = 265"
    and "i < 265 \<Longrightarrow> rs_fill_between pre now par ! i =
      (if fst pre \<le> i \<and> i < fst now then rs_entry (i + 1) (rs_reference [pre, now] (i + 1)) else par ! i)"
proof -
  define P where "P n q \<longleftrightarrow> length q = 265 \<and> (\<forall>i<265. q ! i =
    (if fst pre \<le> i \<and> i + 1 < n \<or> i + 1 = fst now then rs_entry (i + 1) (rs_reference [pre, now] (i + 1)) else par ! i))"
    for n and q :: "rs_parameter list"
  have "P (fst now) (rs_fill_between pre now par)"
    unfolding rs_fill_between_def Let_def set_rs_entry
  proof (rule fold_upt_invariant [where P = P])
    show "P (fst pre + 1) (par[fst now - 1 := rs_entry (fst now) (snd now)])"
      using assms by (auto simp: P_def nth_list_update)
    fix n q assume n: "fst pre + 1 \<le> n" "n < fst now" and P: "P n q"
    have c: "nat (if int n + rs_interp pre now n > int max_fec_packet_num
        then int max_fec_packet_num - int n else rs_interp pre now n) = rs_reference [pre, now] n"
      using n assms by (intro rs_interp_cut) auto
    show "P (Suc n) (q[n - 1 := rs_entry n (nat (if int n + rs_interp pre now n > int max_fec_packet_num
        then int max_fec_packet_num - int n else rs_interp pre now n))])"
      unfolding c using P n assms by (auto simp: P_def nth_list_update)
  qed (use assms in auto)
  then show "length (rs_fill_between pre now par) = 265"
    and "i < 265 \<Longrightarrow> rs_fill_between pre now par ! i =
      (if fst pre \<le> i \<and> i < fst now then rs_entry (i + 1) (rs_reference [pre, now] (i + 1)) else par ! i)"
    using assms(2) by (auto simp: P_def simp del: rs_reference.simps)
qed

lemma rs_ascending_last: "rs_ascending (p # ps) \<Longrightarrow> fst p \<le> fst (last (p # ps))"
  by (induction ps arbitrary: p) fastforce+

lemma rs_fill_nth:
  assumes "rs_ascending ps" "rs_valid ps" "ps \<noteq> []" "length par = 265"
  shows "length (rs_fill ps par) = 265 \<and> (\<forall>i < fst (last ps). rs_fill ps par ! i =
    (if i < fst (hd ps) then par ! i else rs_entry (i + 1) (rs_reference ps (i + 1))))"
  using assms
proof (induction ps par rule: rs_fill.induct)
  case (1 pre now ps par)
  let ?par = "rs_fill_between pre now par"
  have v: "fst pre < fst now" "fst now + snd now \<le> 255" "fst pre + snd pre \<le> 255" "rs_valid (now # ps)" "rs_ascending (now # ps)"
    using "1.prems" by (auto simp: rs_valid_Cons)
  have B: "length ?par = 265" "\<And>i. i < 265 \<Longrightarrow> ?par ! i =
      (if fst pre \<le> i \<and> i < fst now then rs_entry (i + 1) (rs_reference [pre, now] (i + 1)) else par ! i)"
    using rs_fill_between_nth[of par pre now] v "1.prems"(4) by auto
  have IH: "length (rs_fill (now # ps) ?par) = 265 \<and> (\<forall>i < fst (last (now # ps)). rs_fill (now # ps) ?par ! i =
    (if i < fst now then ?par ! i else rs_entry (i + 1) (rs_reference (now # ps) (i + 1))))"
    using "1.IH" v B(1) by simp
  have le: "fst now \<le> fst (last (now # ps))" by (rule rs_ascending_last[OF v(5)])
  have "rs_fill (pre # now # ps) par ! i =
      (if i < fst pre then par ! i else rs_entry (i + 1) (rs_reference (pre # now # ps) (i + 1)))"
    if i: "i < fst (last (pre # now # ps))" for i
  proof (cases "i < fst now")
    case True
    have "rs_reference [pre, now] (i + 1) = rs_reference (pre # now # ps) (i + 1)" if "fst pre \<le> i"
      using that True by (cases ps) auto
    then show ?thesis using IH i True B(2)[of i] v by auto
  next
    case False
    then show ?thesis using IH i v by simp
  qed
  then show ?case using IH by simp
qed auto

lemma rs_fill_first_nth:
  assumes "length par = 265" "fst p \<le> 255"
  shows "length (rs_fill_first p par) = 265 \<and> (\<forall>i < fst p. rs_fill_first p par ! i = rs_entry (i + 1) (snd p))"
proof -
  define P where "P n q \<longleftrightarrow> length q = 265 \<and> (\<forall>i. i + 1 < n \<longrightarrow> q ! i = rs_entry (i + 1) (snd p))"
    for n and q :: "rs_parameter list"
  have "P (fst p + 1) (rs_fill_first p par)"
    unfolding rs_fill_first_def set_rs_entry
    by (rule fold_upt_invariant [where P = P]) (use assms in \<open>auto simp: P_def nth_list_update less_Suc_eq\<close>)
  then show ?thesis by (simp add: P_def)
qed

lemma rs_reference_first: "ps \<noteq> [] \<Longrightarrow> x \<le> fst (hd ps) \<Longrightarrow> rs_reference ps x = snd (hd ps)"
  by (induction ps x rule: rs_reference.induct) auto

text \<open>The table after a successful parse, entry by entry.\<close>

lemma rs_from_str_table:
  assumes len: "length (fp_rs_par p) = 265" and ok: "rs_from_str s p = Some p'"
  obtains ps where "rs_parse (string_to_vec s '','') = Some ps" "ps \<noteq> []" "rs_valid ps" "rs_ascending ps"
    "fp_rs_cnt p' = fst (last ps)" "length (fp_rs_par p') = 265"
    "\<And>i. i < fp_rs_cnt p' \<Longrightarrow> fp_rs_par p' ! i = rs_entry (i + 1) (rs_reference ps (i + 1))"
proof -
  from ok obtain ps where ps: "rs_parse (string_to_vec s '','') = Some ps" "rs_ascending ps"
    "string_to_vec s '','' \<noteq> []"
    "p' = p\<lparr>fp_rs_par := rs_fill ps (rs_fill_first (hd ps) (fp_rs_par p)), fp_rs_cnt := fst (last ps)\<rparr>"
    by (auto simp: rs_from_str_def Let_def not_less split: option.splits if_splits)
  have v: "rs_valid ps" "ps \<noteq> []" using rs_parse_valid[OF ps(1)] ps(3) by auto
  have hd: "fst (hd ps) \<le> 255" using v by (cases ps) (auto simp: rs_valid_Cons)
  note F = rs_fill_first_nth[OF len hd]
  have "fp_rs_par p' ! i = rs_entry (i + 1) (rs_reference ps (i + 1))" if "i < fst (last ps)" for i
    using rs_fill_nth[OF ps(2) v(1,2)] F that rs_reference_first[OF v(2), of "i + 1"] by (auto simp: ps(4))
  then show thesis
    using that[OF ps(1) v(2,1) ps(2)] rs_fill_nth[OF ps(2) v(1,2)] F by (simp add: ps(4))
qed

section \<open>Well-formed parameters\<close>

definition rs_wf :: "fec_parameter \<Rightarrow> bool" where
  "rs_wf p \<longleftrightarrow> length (fp_rs_par p) = 265 \<and> 1 \<le> fp_rs_cnt p \<and> fp_rs_cnt p \<le> 255 \<and>
     (\<forall>i < fp_rs_cnt p. unat (rs_x (fp_rs_par p ! i)) = i + 1 \<and> unat (rs_y (fp_rs_par p ! i)) + i + 1 \<le> 255)"

lemma rs_reference_bound:
  assumes "rs_valid ps" "rs_ascending ps" "ps \<noteq> []" "1 \<le> x" "x \<le> fst (last ps)"
  shows "rs_reference ps x + x \<le> 255"
  using assms
proof (induction ps x rule: rs_reference.induct)
  case (1 pre now ps x)
  then show ?case by (auto simp: rs_valid_Cons min_def)
qed (auto simp: rs_valid_Cons)

lemma rs_from_str_wf [inv_intros]:
  assumes "length (fp_rs_par p) = 265" "rs_from_str s p = Some p'"
  shows "rs_wf p'"
proof -
  obtain ps where ps: "ps \<noteq> []" "rs_valid ps" "rs_ascending ps"
    "fp_rs_cnt p' = fst (last ps)" "length (fp_rs_par p') = 265"
    "\<And>i. i < fp_rs_cnt p' \<Longrightarrow> fp_rs_par p' ! i = rs_entry (i + 1) (rs_reference ps (i + 1))"
    using rs_from_str_table[OF assms] by metis
  have "last ps \<in> set ps" using ps(1) by simp
  then have cnt: "1 \<le> fp_rs_cnt p'" "fp_rs_cnt p' \<le> 255"
    using ps(2,4) by (auto simp: rs_valid_def dest!: bspec[of _ _ "last ps"])
  have "unat (rs_x (fp_rs_par p' ! i)) = i + 1 \<and> unat (rs_y (fp_rs_par p' ! i)) + i + 1 \<le> 255"
    if i: "i < fp_rs_cnt p'" for i
  proof -
    have b: "rs_reference ps (i + 1) + (i + 1) \<le> 255"
      using i ps(4) by (intro rs_reference_bound[OF ps(2,3,1)]) auto
    have "unat (word_of_nat (i + 1) :: u8) = i + 1" "unat (word_of_nat (rs_reference ps (i + 1)) :: u8) = rs_reference ps (i + 1)"
      using b by (simp_all add: unat_of_nat del: of_nat_add of_nat_Suc)
    then show ?thesis using ps(6)[OF i] b by (simp add: rs_entry_def)
  qed
  then show ?thesis using ps(5) cnt by (simp add: rs_wf_def)
qed

lemma copy_fec_wf [inv_intros]: "rs_wf other \<Longrightarrow> length (fp_rs_par p) = 265 \<Longrightarrow>
  \<exists>p'. copy_fec other p = Some p' \<and> rs_wf p' \<and> fp_rs_cnt p' = fp_rs_cnt other \<and>
    (\<forall>i < fp_rs_cnt other. fp_rs_par p' ! i = fp_rs_par other ! i)"
  by (auto simp: copy_fec_def rs_wf_def overwrite_def nth_append)

lemma clone_wf [inv_intros]: "rs_wf other \<Longrightarrow> length (fp_rs_par p) = 265 \<Longrightarrow>
  \<exists>p'. clone other p = Some p' \<and> rs_wf p' \<and> fp_mode p' = fp_mode other \<and> fp_mtu p' = fp_mtu other \<and>
    fp_queue_len p' = fp_queue_len other \<and> fp_version p' = fp_version other \<and> fp_timeout p' = fp_timeout other \<and>
    fp_rs_cnt p' = fp_rs_cnt other \<and> (\<forall>i < fp_rs_cnt other. fp_rs_par p' ! i = fp_rs_par other ! i)"
  by (auto simp: clone_def copy_fec_def rs_wf_def overwrite_def nth_append)

section \<open>Printing and parsing back\<close>

lemma dec_str_digits: "dec_str n \<noteq> [] \<and> (\<forall>c \<in> set (dec_str n). is_digit c)"
proof (induction n rule: dec_str.induct)
  case (1 n)
  have d: "is_digit (char_of (48 + m))" if "m < 10" for m :: nat using that by (simp add: is_digit_def)
  show ?case using 1 d[of n] d[of "n mod 10"] by (subst (1 2) dec_str.simps) auto
qed

lemma digits_val_dec_str: "digits_val (dec_str n) = n"
proof (induction n rule: dec_str.induct)
  case (1 n)
  have snoc: "digits_val (ds @ [c]) = 10 * digits_val ds + (of_char c - 48)" for ds c by (simp add: digits_val_def)
  show ?case
  proof (cases "n < 10")
    case True
    then show ?thesis by (subst dec_str.simps) (simp add: digits_val_def)
  next
    case False
    have m: "48 + n mod 10 < 256" by simp
    then have "of_char (char_of (48 + n mod 10)) = 48 + n mod 10" by simp
    then show ?thesis using False 1[OF False] by (subst dec_str.simps) (simp add: snoc)
  qed
qed

lemma scan_int_dec_str:
  assumes "n < 2 ^ 31" "r = [] \<or> \<not> is_digit (hd r)"
  shows "scan_int (dec_str n @ r) = Some (int n, r)"
proof -
  obtain c ds where c: "dec_str n = c # ds" "is_digit c" using dec_str_digits[of n] by (cases "dec_str n") auto
  have hd: "\<not> is_space c" "c \<noteq> CHR ''-''" "c \<noteq> CHR ''+''" using c(2) by (auto simp: is_space_def is_digit_def)
  have take: "takeWhile is_digit (dec_str n @ r) = dec_str n"
    using assms(2) dec_str_digits[of n] by (cases r) (auto simp: takeWhile_append)
  have drop: "dropWhile is_digit (dec_str n @ r) = r"
    using assms(2) dec_str_digits[of n] by (cases r) (auto simp: dropWhile_append)
  have "to_int32 (int n) = int n"
    using assms(1) by (simp add: to_int32_def min_def max_def signed_take_bit_int_eq_self_iff signed_of_nat)
  then show ?thesis
    using c(1) hd take drop dec_str_digits[of n] digits_val_dec_str[of n]
    by (simp add: scan_int_def Let_def split: prod.splits)
qed

lemma scan_pair_dec_str:
  "x < 2 ^ 31 \<Longrightarrow> y < 2 ^ 31 \<Longrightarrow> scan_pair (dec_str x @ '':'' @ dec_str y) = Some (int x, int y)"
  using scan_int_dec_str[of x "CHR '':'' # dec_str y"] scan_int_dec_str[of y "[]"]
  by (simp add: scan_pair_def is_digit_def)

definition rs_points :: "fec_parameter \<Rightarrow> (nat \<times> nat) list" where
  "rs_points p = map (\<lambda>i. (unat (rs_x (fp_rs_par p ! i)), unat (rs_y (fp_rs_par p ! i)))) [0..<fp_rs_cnt p]"

definition point_str :: "nat \<times> nat \<Rightarrow> string" where
  "point_str q = dec_str (fst q) @ '':'' @ dec_str (snd q)"

lemma join_with_snoc: "ts \<noteq> [] \<Longrightarrow> join_with c (ts @ [t]) = join_with c ts @ [c] @ t"
  by (induction c ts rule: join_with.induct) auto

lemma rs_to_str_join:
  "1 \<le> fp_rs_cnt p \<Longrightarrow> rs_to_str p = Some (join_with CHR '','' (map point_str (rs_points p)))"
proof -
  let ?t = "\<lambda>i. point_str (unat (rs_x (fp_rs_par p ! i)), unat (rs_y (fp_rs_par p ! i)))"
  let ?f = "\<lambda>i s. (if i \<noteq> 0 then s @ '','' else s) @
      dec_str (unat (rs_x (fp_rs_par p ! i))) @ '':'' @ dec_str (unat (rs_y (fp_rs_par p ! i)))"
  have "fold ?f [0..<n] [] = join_with CHR '','' (map ?t [0..<n])" for n
  proof (induction n)
    case (Suc n)
    show ?case
    proof (cases "n = 0")
      case False
      then have "map ?t [0..<n] \<noteq> []" by simp
      from join_with_snoc[OF this, of "CHR '',''" "?t n"] show ?thesis using Suc False by (simp add: point_str_def)
    qed (simp add: point_str_def)
  qed simp
  moreover assume "1 \<le> fp_rs_cnt p"
  ultimately show ?thesis by (simp add: rs_to_str_def rs_points_def comp_def)
qed

lemma point_str_token: "point_str q \<noteq> [] \<and> CHR '','' \<notin> set (point_str q)"
  using dec_str_digits[of "fst q"] dec_str_digits[of "snd q"] by (auto simp: point_str_def is_digit_def)

lemma rs_parse_points:
  "\<forall>q \<in> set qs. 1 \<le> fst q \<and> fst q + snd q \<le> 255 \<Longrightarrow> rs_parse (map point_str qs) = Some qs"
proof (induction qs)
  case (Cons q qs)
  have "scan_pair (point_str q) = Some (int (fst q), int (snd q))"
    unfolding point_str_def using Cons.prems by (intro scan_pair_dec_str) auto
  then show ?case using Cons by (cases q) (auto simp: of_nat_add [symmetric] simp del: of_nat_add)
qed simp

text \<open>A list of points with consecutive \<open>x\<close> leaves nothing to interpolate.\<close>

lemma consecutive_points:
  assumes "\<And>i. i < length qs \<Longrightarrow> fst (qs ! i) = a + i"
  shows "rs_ascending qs \<and> (\<forall>i < length qs. rs_reference qs (a + i) = snd (qs ! i))"
  using assms
proof (induction qs arbitrary: a)
  case (Cons q qs)
  show ?case
  proof (cases qs)
    case (Cons r rs)
    have fst: "fst q = a" "fst r = Suc a" using Cons.prems[of 0] Cons.prems[of 1] Cons by auto
    have "rs_ascending qs \<and> (\<forall>i < length qs. rs_reference qs (Suc a + i) = snd (qs ! i))"
      using Cons.prems[of "Suc _"] by (intro Cons.IH) auto
    then show ?thesis using fst Cons by (auto simp: nth_Cons split: nat.splits)
  qed (auto simp: nth_Cons split: nat.splits)
qed simp

text \<open>C12. The string that \<^verbatim>\<open>rs_to_str\<close> prints for a well-formed table is accepted by \<^verbatim>\<open>rs_from_str\<close> and gives the same
  table, whatever the table held before.\<close>

theorem rs_str_roundtrip:
  assumes wf: "rs_wf p" and len: "length (fp_rs_par q) = 265"
  shows "\<exists>s q'. rs_to_str p = Some s \<and> rs_from_str s q = Some q' \<and> fp_rs_cnt q' = fp_rs_cnt p \<and>
    (\<forall>i < fp_rs_cnt p. fp_rs_par q' ! i = fp_rs_par p ! i)"
proof -
  let ?ps = "rs_points p" and ?s = "join_with CHR '','' (map point_str (rs_points p))"
  have cnt: "1 \<le> fp_rs_cnt p" and ent: "\<And>i. i < fp_rs_cnt p \<Longrightarrow> fst (?ps ! i) = 1 + i \<and> snd (?ps ! i) + (i + 1) \<le> 255"
    using wf by (auto simp: rs_wf_def rs_points_def)
  have s: "rs_to_str p = Some ?s" by (rule rs_to_str_join[OF cnt])
  have l: "length ?ps = fp_rs_cnt p" "?ps \<noteq> []" using cnt by (auto simp: rs_points_def)
  have asc: "rs_ascending ?ps" and ref: "\<And>i. i < fp_rs_cnt p \<Longrightarrow> rs_reference ?ps (1 + i) = snd (?ps ! i)"
    using consecutive_points[of ?ps 1] ent l by auto
  have vec: "string_to_vec ?s '','' = map point_str ?ps"
    by (rule string_to_vec_join) (auto simp: point_str_token)
  have parse: "rs_parse (map point_str ?ps) = Some ?ps"
  proof (intro rs_parse_points ballI)
    fix q assume "q \<in> set ?ps"
    then obtain i where "i < fp_rs_cnt p" "q = ?ps ! i" using l(1) by (auto simp: in_set_conv_nth)
    then show "1 \<le> fst q \<and> fst q + snd q \<le> 255" using ent[of i] by simp
  qed
  obtain q' where q': "rs_from_str ?s q = Some q'" using l(2) asc by (simp add: rs_from_str_def vec parse)
  have "fst (last ?ps) = fp_rs_cnt p" using ent[of "fp_rs_cnt p - 1"] l cnt by (simp add: last_conv_nth)
  moreover obtain ps where "rs_parse (string_to_vec ?s '','') = Some ps" "fp_rs_cnt q' = fst (last ps)"
    "\<And>i. i < fp_rs_cnt q' \<Longrightarrow> fp_rs_par q' ! i = rs_entry (i + 1) (rs_reference ps (i + 1))"
    using rs_from_str_table[OF len q'] by metis
  ultimately have c: "fp_rs_cnt q' = fp_rs_cnt p"
    and e: "\<And>i. i < fp_rs_cnt p \<Longrightarrow> fp_rs_par q' ! i = rs_entry (i + 1) (rs_reference ?ps (i + 1))"
    by (auto simp: vec parse)
  have "fp_rs_par q' ! i = fp_rs_par p ! i" if i: "i < fp_rs_cnt p" for i
  proof -
    let ?e = "fp_rs_par p ! i"
    have x: "unat (rs_x ?e) = i + 1" and r: "rs_reference ?ps (i + 1) = unat (rs_y ?e)"
      using ent[OF i] ref[OF i] i by (auto simp: rs_points_def)
    have "fp_rs_par q' ! i = rs_entry (unat (rs_x ?e)) (unat (rs_y ?e))" using e[OF i] by (simp only: x r)
    then show ?thesis by (simp add: rs_entry_def)
  qed
  then show ?thesis using s q' c by blast
qed

text \<open>A small table.\<close>

definition sample_par :: fec_parameter where
  "sample_par = \<lparr>fp_version = 0, fp_mtu = 1250, fp_queue_len = 1, fp_timeout = 8000, fp_mode = 0, fp_rs_cnt = 1,
     fp_rs_par = replicate 265 (rs_entry 1 1)\<rparr>"

lemma sample_par_wf: "rs_wf sample_par"
  by (simp add: rs_wf_def sample_par_def rs_entry_def)

theorem rs_str_roundtrip_witness:
  "\<exists>s q'. rs_to_str sample_par = Some s \<and> rs_from_str s sample_par = Some q' \<and> fp_rs_cnt q' = 1 \<and> fp_rs_par q' ! 0 = rs_entry 1 1"
proof -
  have "length (fp_rs_par sample_par) = 265" "fp_rs_cnt sample_par = 1" "fp_rs_par sample_par ! 0 = rs_entry 1 1"
    by (simp_all add: sample_par_def)
  with rs_str_roundtrip[OF sample_par_wf, of sample_par] show ?thesis by auto
qed

end
