(* ===== verification/Fec_Encode.thy ===== *)
theory Fec_Encode
  imports Fec_Codec Fec_Param
begin

text \<open>
  The sender's side of the FEC layer, \<^verbatim>\<open>fec_encode_manager_t\<close> of
  \<^verbatim>\<open>src/ref/UDPspeeder/fec_manager.cpp\<close>: packets are collected, and when a group is complete (or its timer
  fires, which is an input of a null pointer) it is encoded and handed out with an eight-byte header on
  each packet. The rows of \<^verbatim>\<open>input_buf\<close> are kept as their part behind the header. \<open>None\<close> is a failed
  assertion or a write outside a buffer. The time of the call and the global parameters are arguments.
\<close>

definition encode_fast_send :: bool where
  "encode_fast_send = True"

definition short_packet_optimize :: bool where
  "short_packet_optimize = True"

definition header_overhead :: nat where
  "header_overhead = 40"

record fec_enc =
  fe_seq :: u32
  fe_par :: fec_parameter
  fe_first_time :: u64
  fe_first_time_out :: u64
  fe_blob :: blob_encode
  fe_input :: "nat \<Rightarrow> bytes"
  fe_output :: "bytes list"
  fe_counter :: nat
  fe_ready :: bool
  fe_timer :: bool
  fe_codes :: code_table

definition fec_enc_clear_data :: "u32 \<Rightarrow> fec_enc \<Rightarrow> fec_enc" where
  "fec_enc_clear_data rnd e =
    e\<lparr>fe_counter := 0, fe_blob := blob_encode_clear (fe_blob e), fe_ready := False, fe_seq := rnd, fe_timer := False\<rparr>"

definition fec_enc_append :: "u64 \<Rightarrow> bytes \<Rightarrow> fec_enc \<Rightarrow> fec_enc option" where
  "fec_enc_append now s e = do {
     let e = (if fe_counter e = 0 then e\<lparr>fe_first_time := now, fe_timer := True\<rparr> else e);
     e \<leftarrow> (if fp_mode (fe_par e) = 0 then
             map_option (\<lambda>b. e\<lparr>fe_blob := b\<rparr>) (blob_encode_input s (fe_blob e))
           else if fp_mode (fe_par e) = 1 then do {
             check (length s \<le> 65535);
             check (fe_counter e < max_fec_packet_num + 5 \<and> 8 + 2 + length s \<le> buf_len);
             Some (e\<lparr>fe_input := (fe_input e)(fe_counter e := write_u16 (word_of_nat (length s)) @ s)\<rparr>)
           } else None);
     Some (e\<lparr>fe_counter := fe_counter e + 1\<rparr>)
   }"

text \<open>The group size with the least total length on the wire whose shards fit the MTU.\<close>

definition fec_best_data_num :: "fec_parameter \<Rightarrow> nat \<Rightarrow> nat \<Rightarrow> blob_encode \<Rightarrow> nat option" where
  "fec_best_data_num par tail_x tail_y b = do {
     let best_len = (get_shard_len_next tail_x 0 b + header_overhead) * (tail_x + tail_y);
     check (tail_x \<le> fp_rs_cnt par);
     (best_len, best_data_num) \<leftarrow> fold_option (\<lambda>i (best_len, best_data_num). do {
         let tmp_x = unat (rs_x (fp_rs_par par ! (i - 1)));
         let tmp_y = unat (rs_y (fp_rs_par par ! (i - 1)));
         check (tmp_x = i);
         let shard_len = get_shard_len_next tmp_x 0 b;
         if shard_len > fp_mtu par then Some (best_len, best_data_num)
         else (let new_len = (shard_len + header_overhead) * (tmp_x + tmp_y) in
           if new_len < best_len then Some (new_len, tmp_x) else Some (best_len, best_data_num))
       }) [1..<tail_x] (best_len, tail_x);
     check (best_data_num \<ge> 1 \<and> best_data_num \<le> fp_rs_cnt par);
     Some best_data_num
   }"

definition fec_header :: "u32 \<Rightarrow> nat \<Rightarrow> nat \<Rightarrow> nat \<Rightarrow> nat \<Rightarrow> bytes" where
  "fec_header seq mode data_num redundant_num i =
     write_u32 seq @ [word_of_nat mode, word_of_nat data_num, word_of_nat redundant_num, word_of_nat i]"

text \<open>What a complete group consists of: numbers of data and redundant packets, the shard length and the data shards.\<close>

definition fec_enc_shards :: "fec_enc \<Rightarrow> (nat \<times> nat \<times> nat \<times> bytes list \<times> fec_enc) option" where
  "fec_enc_shards e = (let par = fe_par e in
     if fp_mode par = 0 then do {
       tail \<leftarrow> get_tail par;
       let tail_x = unat (rs_x tail); let tail_y = unat (rs_y tail);
       (x, y) \<leftarrow> (if short_packet_optimize then do {
             best \<leftarrow> fec_best_data_num par tail_x tail_y (fe_blob e);
             Some (best, unat (rs_y (fp_rs_par par ! (best - 1))))
           } else Some (tail_x, tail_y));
       let (shards, fec_len, b) = blob_encode_output x (fe_blob e);
       Some (x, y, fec_len, shards, e\<lparr>fe_blob := b\<rparr>)
     } else do {
       check (fe_counter e \<le> fp_rs_cnt par);
       let x = fe_counter e; let y = unat (rs_y (fp_rs_par par ! (fe_counter e - 1)));
       let fec_len = fold (\<lambda>i m. if length (fe_input e i) > m then length (fe_input e i) else m) [0..<x] 0;
       Some (x, y, fec_len, map (\<lambda>i. fe_input e i @ replicate (fec_len - length (fe_input e i)) 0) [0..<x], e)
     })"

definition fec_enc_packet :: "fec_enc \<Rightarrow> nat \<Rightarrow> nat \<Rightarrow> bytes list \<Rightarrow> nat \<Rightarrow> bytes" where
  "fec_enc_packet e x y payloads i =
    (if fp_mode (fe_par e) = 1 \<and> i < x
     then fec_header (fe_seq e) 1 0 0 i @ take (length (fe_input e i)) (payloads ! i)
     else fec_header (fe_seq e) (fp_mode (fe_par e)) x y i @ payloads ! i)"

definition fec_enc_group :: "bytes option \<Rightarrow> fec_enc \<Rightarrow> fec_enc option" where
  "fec_enc_group s e = do {
     (x, y, fec_len, shards, e) \<leftarrow> fec_enc_shards e;
     check (x + y \<le> max_fec_packet_num + 5 \<and> 8 + fec_len \<le> buf_len);
     let (coded, codes) = rs_encode2 x (x + y) (shards @ replicate y (replicate fec_len 0)) fec_len (fe_codes e);
     payloads \<leftarrow> coded;
     let packets = map (fec_enc_packet e x y payloads) [0..<x + y];
     check (\<not> fe_ready e);
     let packets = (if encode_fast_send \<and> fp_mode (fe_par e) = 1
         then map (\<lambda>i. packets ! i) ((if s \<noteq> None then [x - 1] else []) @ [x..<x + y]) else packets);
     Some (e\<lparr>fe_codes := codes, fe_ready := True, fe_first_time_out := fe_first_time e, fe_first_time := 0,
       fe_seq := fe_seq e + 1, fe_counter := 0, fe_blob := blob_encode_clear (fe_blob e), fe_timer := False,
       fe_output := packets\<rparr>)
   }"

text \<open>\<^verbatim>\<open>input\<close>: return value and state. A null pointer is \<open>None\<close>, with length 0. First the parameters are
  brought up to date, which happens between groups only.\<close>

definition fec_enc_refresh :: "fec_parameter \<Rightarrow> fec_enc \<Rightarrow> fec_enc option" where
  "fec_enc_refresh g_fec_par e =
    (if fe_counter e = 0 \<and> fp_version (fe_par e) \<noteq> fp_version g_fec_par
     then map_option (\<lambda>par. e\<lparr>fe_par := par\<rparr>) (clone g_fec_par (fe_par e)) else Some e)"

text \<open>What happens once the packet is in its place, or set aside: a group is made, or in mode 1 the packet is sent at once.\<close>

definition fec_enc_emit :: "bool \<Rightarrow> bytes option \<Rightarrow> fec_enc \<Rightarrow> fec_enc option" where
  "fec_enc_emit about_to_fec s e =
    (if about_to_fec then fec_enc_group s e
     else if encode_fast_send \<and> s \<noteq> None \<and> fp_mode (fe_par e) = 1 then do {
       check (fe_counter e \<ge> 1 \<and> fe_counter e \<le> 255 \<and> \<not> fe_ready e);
       let i = fe_counter e - 1;
       Some (e\<lparr>fe_ready := True, fe_first_time_out := 0,
         fe_output := [fec_header (fe_seq e) (fp_mode (fe_par e)) 0 0 i @ fe_input e i]\<rparr>)
     } else Some e)"

definition fec_enc_accept :: "u64 \<Rightarrow> bytes option \<Rightarrow> fec_enc \<Rightarrow> (int \<times> fec_enc) option" where
  "fec_enc_accept now s e = do {
     let par = fe_par e;
     let len = (case s of None \<Rightarrow> 0 | Some b \<Rightarrow> length b);
     check (fp_mode par = 0 \<or> fp_mode par = 1);
     if s = None \<and> fe_counter e = 0 then Some (-1, e)
     else do {
     tail \<leftarrow> get_tail par;
     let tail_x = unat (rs_x tail);
     let shard = get_shard_len_next tail_x len (fe_blob e);
     if fp_mode par = 0 \<and> s \<noteq> None \<and> fe_counter e = 0 \<and> shard > fp_mtu par then Some (-1, e)
     else do {
       let delayed_append = (fp_mode par = 0 \<and> shard > fp_mtu par);
       check (fp_mode par = 0 \<longrightarrow> fe_counter e < fp_queue_len par);
       check (fp_mode par = 1 \<longrightarrow> fe_counter e < tail_x);
       e \<leftarrow> (case s of Some b \<Rightarrow> if \<not> delayed_append then fec_enc_append now b e else Some e | None \<Rightarrow> Some e);
       let about_to_fec = (s = None \<or> delayed_append \<or>
         fp_mode par = 0 \<and> fe_counter e = fp_queue_len par \<or> fp_mode par = 1 \<and> fe_counter e = tail_x);
       if about_to_fec \<and> fe_counter e = 0 then Some (-1, e)
       else do {
         e \<leftarrow> fec_enc_emit about_to_fec s e;
         e \<leftarrow> (case s of Some b \<Rightarrow> if delayed_append then (if fp_mode par \<noteq> 1 then fec_enc_append now b e else None) else Some e
               | None \<Rightarrow> Some e);
         Some (0, e)
       }
     }
     }
   }"

definition fec_enc_input :: "fec_parameter \<Rightarrow> u64 \<Rightarrow> bytes option \<Rightarrow> fec_enc \<Rightarrow> (int \<times> fec_enc) option" where
  "fec_enc_input g_fec_par now s e = do {
     e \<leftarrow> fec_enc_refresh g_fec_par e;
     fec_enc_accept now s e
   }"

definition fec_enc_output :: "fec_enc \<Rightarrow> bytes list option \<times> fec_enc" where
  "fec_enc_output e = (if \<not> fe_ready e then (None, e) else (Some (fe_output e), e\<lparr>fe_ready := False\<rparr>))"

section \<open>What the encoder holds\<close>

definition fec_par_ok :: "fec_parameter \<Rightarrow> bool" where
  "fec_par_ok p \<longleftrightarrow> rs_wf p \<and> fp_mode p \<le> 1 \<and> fp_mtu p \<le> max_data_len \<and>
     1 \<le> fp_queue_len p \<and> fp_queue_len p \<le> max_blob_packet_num"

text \<open>The packets \<open>ps\<close> are pending: in mode 0 they are in the blob, in mode 1 in the rows of the buffer.\<close>

definition fec_enc_held :: "bytes list \<Rightarrow> fec_enc \<Rightarrow> bool" where
  "fec_enc_held ps e \<longleftrightarrow> fec_par_ok (fe_par e) \<and> code_table_ok (fe_codes e) \<and> fe_counter e = length ps \<and>
     (\<forall>p \<in> set ps. length p \<le> max_data_len) \<and>
     (if fp_mode (fe_par e) = 0
      then length ps \<le> fp_queue_len (fe_par e) \<and> blob_ok ps (fe_blob e) \<and>
        be_current_len (fe_blob e) \<le> max (fp_rs_cnt (fe_par e) * fp_mtu (fe_par e)) (max_data_len + 6)
      else length ps \<le> fp_rs_cnt (fe_par e) \<and> blob_ok [] (fe_blob e) \<and>
        (\<forall>i < length ps. fe_input e i = write_u16 (word_of_nat (length (ps ! i))) @ ps ! i))"

text \<open>Between calls the queue is never full.\<close>

definition fec_enc_inv :: "bytes list \<Rightarrow> fec_enc \<Rightarrow> bool" where
  "fec_enc_inv ps e \<longleftrightarrow> fec_enc_held ps e \<and>
     length ps < (if fp_mode (fe_par e) = 0 then fp_queue_len (fe_par e) else fp_rs_cnt (fe_par e))"

text \<open>
  What a group's packets are: in mode 0 the shards of the blob and their redundancy; in mode 1 the packets
  themselves with their length in front, and the redundancy of these filled up to the same length.
\<close>

definition fec_blob_group :: "u32 \<Rightarrow> nat \<Rightarrow> nat \<Rightarrow> nat \<Rightarrow> bytes list \<Rightarrow> bytes list \<Rightarrow> bool" where
  "fec_blob_group seq x y len ps pkts \<longleftrightarrow> (\<exists>code shards rest. 1 \<le> x \<and> x + y \<le> 255 \<and> len \<le> max_data_len + 6 \<and>
     fec_new x (x + y) = Some code \<and> length shards = x \<and> (\<forall>s \<in> set shards. length s = len) \<and>
     concat shards = write_u32 (word_of_nat (length ps)) @ blob_body ps @ rest \<and>
     length ps \<le> max_blob_packet_num \<and> (\<forall>p \<in> set ps. length p \<le> 65535) \<and>
     pkts = map (\<lambda>i. fec_header seq 0 x y i @ codeword code shards len i) [0..<x + y])"

definition direct_row :: "bytes \<Rightarrow> bytes" where
  "direct_row p = write_u16 (word_of_nat (length p)) @ p"

definition direct_shards :: "nat \<Rightarrow> bytes list \<Rightarrow> bytes list" where
  "direct_shards len ps = map (\<lambda>p. direct_row p @ replicate (len - length (direct_row p)) 0) ps"

definition direct_packet :: "fec_parms \<Rightarrow> u32 \<Rightarrow> nat \<Rightarrow> nat \<Rightarrow> nat \<Rightarrow> bytes list \<Rightarrow> nat \<Rightarrow> bytes" where
  "direct_packet code seq x y len ps i =
    (if i < x then fec_header seq 1 0 0 i @ direct_row (ps ! i)
     else fec_header seq 1 x y i @ codeword code (direct_shards len ps) len i)"

definition fec_direct_group :: "u32 \<Rightarrow> nat \<Rightarrow> nat \<Rightarrow> nat \<Rightarrow> bytes list \<Rightarrow> nat list \<Rightarrow> bytes list \<Rightarrow> bool" where
  "fec_direct_group seq x y len ps sent pkts \<longleftrightarrow> (\<exists>code. 1 \<le> x \<and> x + y \<le> 255 \<and> len \<le> max_data_len + 2 \<and>
     fec_new x (x + y) = Some code \<and> length ps = x \<and> (\<forall>p \<in> set ps. length (direct_row p) \<le> len) \<and>
     (\<exists>p \<in> set ps. length (direct_row p) = len) \<and> pkts = map (direct_packet code seq x y len ps) sent)"

lemma rs_wf_tail: "rs_wf p \<Longrightarrow> \<exists>t. get_tail p = Some t \<and> unat (rs_x t) = fp_rs_cnt p \<and> 1 \<le> fp_rs_cnt p \<and>
    fp_rs_cnt p + unat (rs_y t) \<le> 255"
  by (auto simp: rs_wf_def get_tail_def dest!: spec[of _ "fp_rs_cnt p - 1"])

lemma round_up_div_le: "0 < b \<Longrightarrow> a \<le> m * b \<Longrightarrow> round_up_div a b \<le> m"
proof -
  assume b: "0 < b" and a: "a \<le> m * b"
  then have "a + b - 1 < (m + 1) * b" by simp
  then have "(a + b - 1) div b < m + 1" by (rule less_mult_imp_div_less)
  then show ?thesis unfolding round_up_div_def by simp
qed

lemma round_up_div_mono: "a \<le> a' \<Longrightarrow> round_up_div a b \<le> round_up_div a' b"
  unfolding round_up_div_def by (intro div_le_mono) simp

text \<open>The choice of the group size: an entry of the table whose shards fit the MTU, or the whole table.\<close>

lemma fec_best_data_num_spec:
  assumes wf: "rs_wf par" and t: "tail_x = fp_rs_cnt par"
  shows "\<exists>best. fec_best_data_num par tail_x tail_y b = Some best \<and> 1 \<le> best \<and> best \<le> tail_x \<and>
    (best = tail_x \<or> get_shard_len_next best 0 b \<le> fp_mtu par)"
proof -
  let ?P = "\<lambda>n (best_len :: nat, best). 1 \<le> best \<and> best \<le> tail_x \<and> (best = tail_x \<or> get_shard_len_next best 0 b \<le> fp_mtu par)"
  let ?f = "\<lambda>i (best_len, best_data_num). do {
         let tmp_x = unat (rs_x (fp_rs_par par ! (i - 1)));
         let tmp_y = unat (rs_y (fp_rs_par par ! (i - 1)));
         check (tmp_x = i);
         let shard_len = get_shard_len_next tmp_x 0 b;
         if shard_len > fp_mtu par then Some (best_len, best_data_num)
         else (let new_len = (shard_len + header_overhead) * (tmp_x + tmp_y) in
           if new_len < best_len then Some (new_len, tmp_x) else Some (best_len, best_data_num))
       }"
  have one: "1 \<le> tail_x" using wf t by (simp add: rs_wf_def)
  have "\<exists>s. fold_option ?f [1..<tail_x] ((get_shard_len_next tail_x 0 b + header_overhead) * (tail_x + tail_y), tail_x) = Some s \<and> ?P tail_x s"
  proof (rule fold_option_upt_total_invariant[where P = ?P])
    fix i s assume i: "1 \<le> i" "i < tail_x" and s: "?P i s"
    have "unat (rs_x (fp_rs_par par ! (i - 1))) = i" using wf i t by (auto simp: rs_wf_def)
    then show "\<exists>s'. ?f i s = Some s' \<and> ?P (Suc i) s'" using s i by (cases s) (auto simp: Let_def)
  qed (use one in auto)
  then show ?thesis using t one by (auto simp: fec_best_data_num_def Let_def)
qed

lemma codeword_prefix: "fec_k code \<le> length ds \<Longrightarrow> codeword code (ds @ es) len i = codeword code ds len i"
  unfolding codeword_def by (intro map_cong refl fold_cong) (auto simp: nth_append)

lemma rs_encode2_codewords:
  assumes "code_table_ok t" "1 \<le> x" "x + y \<le> 255" "length shards = x" "\<forall>s \<in> set shards. length s = len"
  obtains code t' where "fec_new x (x + y) = Some code" "code_table_ok t'"
    "rs_encode2 x (x + y) (shards @ replicate y (replicate len 0)) len t = (Some (map (codeword code shards len) [0..<x + y]), t')"
proof -
  obtain code where code: "fec_new x (x + y) = Some code" using assms(2,3) by (auto simp: fec_new_def GF_SIZE_def Let_def)
  have k: "fec_k code = x" using fec_new_matrix(1)[OF _ _ _ code] assms by auto
  have "rs_encode code (shards @ replicate y (replicate len 0)) len =
      map (codeword code (shards @ replicate y (replicate len 0)) len) [0..<x + y]"
    using assms(2-5) by (intro rs_encode_codewords[OF _ _ _ code]) (auto simp: nth_append)
  also have "\<dots> = map (codeword code shards len) [0..<x + y]" using k assms(4) by (simp add: codeword_prefix)
  finally have "rs_encode code (shards @ replicate y (replicate len 0)) len = map (codeword code shards len) [0..<x + y]" .
  then show thesis
    using that[OF code] rs_code2(1)[OF assms(1) _ _ _ code, of "shards @ replicate y (replicate len 0)" len] assms(2,3) by auto
qed

text \<open>The shards of a group fit the rows of the output buffer.\<close>

lemma blob_shard_bound:
  assumes cur: "be_current_len b \<le> max (x * mtu) (max_data_len + 6)" and mtu: "mtu \<le> max_data_len" and x: "0 < x"
  shows "get_shard_len x b \<le> max_data_len + 6"
proof -
  have "x * mtu \<le> (max_data_len + 6) * x" "max_data_len + 6 \<le> (max_data_len + 6) * x" using mtu x by auto
  then have "be_current_len b \<le> (max_data_len + 6) * x" using cur by (metis max.bounded_iff max_def)
  then show ?thesis unfolding get_shard_len_def by (rule round_up_div_le[OF x])
qed

lemma fec_enc_shards_blob:
  assumes held: "fec_enc_held ps e" and mode: "fp_mode (fe_par e) = 0"
  obtains x y len shards b rest where "fec_enc_shards e = Some (x, y, len, shards, e\<lparr>fe_blob := b\<rparr>)"
    "1 \<le> x" "x + y \<le> 255" "len \<le> max_data_len + 6" "length shards = x" "\<forall>s \<in> set shards. length s = len"
    "concat shards = write_u32 (word_of_nat (length ps)) @ blob_body ps @ rest"
proof -
  let ?par = "fe_par e" and ?b = "fe_blob e"
  have wf: "rs_wf ?par" and mtu: "fp_mtu ?par \<le> max_data_len" and ok: "blob_ok ps ?b"
    and cur: "be_current_len ?b \<le> max (fp_rs_cnt ?par * fp_mtu ?par) (max_data_len + 6)"
    using held mode by (auto simp: fec_enc_held_def fec_par_ok_def)
  obtain t where t: "get_tail ?par = Some t" "unat (rs_x t) = fp_rs_cnt ?par" using rs_wf_tail[OF wf] by blast
  obtain x where x: "fec_best_data_num ?par (unat (rs_x t)) (unat (rs_y t)) ?b = Some x" "1 \<le> x" "x \<le> fp_rs_cnt ?par"
      "x = fp_rs_cnt ?par \<or> get_shard_len_next x 0 ?b \<le> fp_mtu ?par"
    using fec_best_data_num_spec[OF wf t(2)] t(2) by metis
  let ?y = "unat (rs_y (fp_rs_par ?par ! (x - 1)))"
  have y: "x + ?y \<le> 255" using wf x(2,3) by (auto simp: rs_wf_def dest!: spec[of _ "x - 1"])
  obtain shards len b where out: "blob_encode_output x ?b = (shards, len, b)" by (metis prod_cases3)
  have x0: "0 < x" using x(2) by simp
  note o = blob_output_concat[OF ok x0 out]
  have "get_shard_len x ?b \<le> max_data_len + 6"
  proof (cases "x = fp_rs_cnt ?par")
    case True
    then show ?thesis using blob_shard_bound[OF _ mtu x0] cur by simp
  next
    case False
    have "get_shard_len x ?b \<le> get_shard_len_next x 0 ?b"
      unfolding get_shard_len_def get_shard_len_next_def by (rule round_up_div_mono) simp
    then show ?thesis using False x(4) mtu by simp
  qed
  then have len: "len \<le> max_data_len + 6" using o(4) by simp
  obtain rest where rest: "concat shards = write_u32 (word_of_nat (length ps)) @ blob_body ps @ rest" using o(1) by blast
  have "fec_enc_shards e = Some (x, ?y, len, shards, e\<lparr>fe_blob := b\<rparr>)"
    using mode by (simp add: fec_enc_shards_def Let_def t(1) short_packet_optimize_def x(1) out)
  then show thesis using that x(2) y len o(2,3) rest by blast
qed

definition enc_rest :: "fec_enc \<Rightarrow> fec_enc \<Rightarrow> bool" where
  "enc_rest e e' \<longleftrightarrow> fe_par e' = fe_par e \<and> fe_seq e' = fe_seq e + 1 \<and> fec_enc_inv [] e'"

lemma fec_enc_inv_Nil:
  "fec_enc_inv [] e \<longleftrightarrow> fec_par_ok (fe_par e) \<and> code_table_ok (fe_codes e) \<and> fe_counter e = 0 \<and> blob_ok [] (fe_blob e)"
  by (auto simp: fec_enc_inv_def fec_enc_held_def fec_par_ok_def rs_wf_def blob_ok_def blob_body_def)

lemma fec_enc_group_blob:
  assumes held: "fec_enc_held ps e" and mode: "fp_mode (fe_par e) = 0" and ready: "\<not> fe_ready e"
  shows "\<exists>e' x y len. fec_enc_group s e = Some e' \<and> enc_rest e e' \<and> fe_ready e' \<and>
    fec_blob_group (fe_seq e) x y len ps (fe_output e')"
proof -
  obtain x y len shards b rest where sh: "fec_enc_shards e = Some (x, y, len, shards, e\<lparr>fe_blob := b\<rparr>)"
    "1 \<le> x" "x + y \<le> 255" "len \<le> max_data_len + 6" "length shards = x" "\<forall>s \<in> set shards. length s = len"
    "concat shards = write_u32 (word_of_nat (length ps)) @ blob_body ps @ rest"
    by (rule fec_enc_shards_blob[OF held mode])
  have tab: "code_table_ok (fe_codes e)" and ok: "blob_ok ps (fe_blob e)" "fec_par_ok (fe_par e)"
    using held mode by (auto simp: fec_enc_held_def)
  obtain code t where enc: "fec_new x (x + y) = Some code" "code_table_ok t"
    "rs_encode2 x (x + y) (shards @ replicate y (replicate len 0)) len (fe_codes e) = (Some (map (codeword code shards len) [0..<x + y]), t)"
    by (rule rs_encode2_codewords[OF tab sh(2,3,5,6)])
  let ?pkts = "map (\<lambda>i. fec_header (fe_seq e) 0 x y i @ codeword code shards len i) [0..<x + y]"
  have p: "map (fec_enc_packet (e\<lparr>fe_blob := b\<rparr>) x y (map (codeword code shards len) [0..<x + y])) [0..<x + y] = ?pkts"
    using mode by (auto simp: fec_enc_packet_def)
  let ?e = "e\<lparr>fe_blob := blob_encode_clear b, fe_codes := t, fe_ready := True, fe_first_time_out := fe_first_time e,
      fe_first_time := 0, fe_seq := fe_seq e + 1, fe_counter := 0, fe_timer := False, fe_output := ?pkts\<rparr>"
  have "fec_enc_group s e = Some ?e"
    using ready mode sh(3,4) by (simp add: fec_enc_group_def sh(1) enc(3) Let_def p)
  moreover have "enc_rest e ?e" using ok(2) enc(2) blob_ok_clear[of b] by (simp add: enc_rest_def fec_enc_inv_Nil)
  moreover have "fec_blob_group (fe_seq e) x y len ps ?pkts"
    unfolding fec_blob_group_def using sh enc(1) ok by (auto simp: blob_ok_def)
  ultimately show ?thesis by (intro exI[of _ ?e] exI[of _ x] exI[of _ y] exI[of _ len]) simp
qed

lemma fold_max_upt:
  fixes f :: "nat \<Rightarrow> nat"
  defines "m n \<equiv> fold (\<lambda>i m. if f i > m then f i else m) [0..<n] 0"
  shows "i < n \<Longrightarrow> f i \<le> m n" and "0 < n \<Longrightarrow> \<exists>i<n. m n = f i"
proof -
  have "(\<forall>i<n. f i \<le> m n) \<and> (0 < n \<longrightarrow> (\<exists>i<n. m n = f i))"
  proof (induction n)
    case (Suc n)
    have m: "m (Suc n) = (if f n > m n then f n else m n)" by (simp add: m_def)
    show ?case
    proof (cases "f n > m n")
      case True
      then show ?thesis using Suc m by (auto simp: less_Suc_eq intro: order_trans less_imp_le)
    next
      case False
      then have "m (Suc n) = m n" "n = 0 \<Longrightarrow> f n = 0" using m by (auto simp: m_def)
      then show ?thesis using Suc False by (cases "n = 0") (auto simp: less_Suc_eq m_def)
    qed
  qed (simp add: m_def)
  then show "i < n \<Longrightarrow> f i \<le> m n" "0 < n \<Longrightarrow> \<exists>i<n. m n = f i" by auto
qed

lemma fec_enc_shards_direct:
  assumes held: "fec_enc_held ps e" and mode: "fp_mode (fe_par e) = 1" and ne: "ps \<noteq> []"
  obtains y len where "fec_enc_shards e = Some (length ps, y, len, direct_shards len ps, e)"
    "length ps + y \<le> 255" "len \<le> max_data_len + 2" "\<forall>p \<in> set ps. length (direct_row p) \<le> len"
    "\<exists>p \<in> set ps. length (direct_row p) = len"
proof -
  let ?x = "length ps" and ?l = "\<lambda>i. length (fe_input e i)"
  have wf: "rs_wf (fe_par e)" and x: "?x \<le> fp_rs_cnt (fe_par e)" "fe_counter e = ?x"
    using held mode by (auto simp: fec_enc_held_def fec_par_ok_def)
  have row: "fe_input e i = direct_row (ps ! i)" if "i < ?x" for i
    using held mode that by (auto simp: fec_enc_held_def direct_row_def)
  define y len where "y = unat (rs_y (fp_rs_par (fe_par e) ! (?x - 1)))"
    and "len = fold (\<lambda>i m. if ?l i > m then ?l i else m) [0..<?x] 0"
  have le: "length (direct_row (ps ! i)) \<le> len" if "i < ?x" for i
    using fold_max_upt(1)[of i ?x ?l] that row[OF that] by (simp add: len_def)
  obtain i where i: "i < ?x" "len = length (direct_row (ps ! i))"
    using fold_max_upt(2)[of ?x ?l] ne row by (auto simp: len_def)
  have "length (ps ! i) \<le> max_data_len" using held i(1) by (simp add: fec_enc_held_def)
  then have "len \<le> max_data_len + 2" using i(2) by (simp add: direct_row_def)
  moreover have "map (\<lambda>i. fe_input e i @ replicate (len - ?l i) 0) [0..<?x] = direct_shards len ps"
    by (rule nth_equalityI) (auto simp: direct_shards_def row)
  then have "fec_enc_shards e = Some (?x, y, len, direct_shards len ps, e)"
    using mode x by (simp add: fec_enc_shards_def Let_def y_def len_def [symmetric])
  moreover have "?x + y \<le> 255"
    using wf x(1) ne unfolding y_def rs_wf_def by (cases ps) (auto dest!: spec[of _ "?x - 1"])
  ultimately show thesis using that[of y len] le i by (metis in_set_conv_nth)
qed

lemma fec_enc_group_direct:
  assumes held: "fec_enc_held ps e" and mode: "fp_mode (fe_par e) = 1" and ready: "\<not> fe_ready e" and ne: "ps \<noteq> []"
  shows "\<exists>e' y len. fec_enc_group s e = Some e' \<and> enc_rest e e' \<and> fe_ready e' \<and>
    fec_direct_group (fe_seq e) (length ps) y len ps
      ((if s \<noteq> None then [length ps - 1] else []) @ [length ps..<length ps + y]) (fe_output e')"
proof -
  let ?x = "length ps"
  obtain y len where sh: "fec_enc_shards e = Some (?x, y, len, direct_shards len ps, e)"
    "?x + y \<le> 255" "len \<le> max_data_len + 2" "\<forall>p \<in> set ps. length (direct_row p) \<le> len"
    "\<exists>p \<in> set ps. length (direct_row p) = len"
    by (rule fec_enc_shards_direct[OF held mode ne])
  have x: "1 \<le> ?x" using ne by (cases ps) auto
  have len: "length (direct_shards len ps) = ?x" "\<forall>d \<in> set (direct_shards len ps). length d = len"
    using sh(4) by (auto simp: direct_shards_def)
  have tab: "code_table_ok (fe_codes e)" "fec_par_ok (fe_par e)" and row: "i < ?x \<Longrightarrow> fe_input e i = direct_row (ps ! i)" for i
    using held mode by (auto simp: fec_enc_held_def direct_row_def)
  obtain code t where enc: "fec_new ?x (?x + y) = Some code" "code_table_ok t"
    "rs_encode2 ?x (?x + y) (direct_shards len ps @ replicate y (replicate len 0)) len (fe_codes e) =
      (Some (map (codeword code (direct_shards len ps) len) [0..<?x + y]), t)"
    by (rule rs_encode2_codewords[OF tab(1) x sh(2) len])
  let ?sent = "(if s \<noteq> None then [?x - 1] else []) @ [?x..<?x + y]"
  have p: "fec_enc_packet e ?x y (map (codeword code (direct_shards len ps) len) [0..<?x + y]) i =
      direct_packet code (fe_seq e) ?x y len ps i" if "i < ?x + y" for i
  proof (cases "i < ?x")
    case True
    then have "codeword code (direct_shards len ps) len i = direct_shards len ps ! i"
      using x sh(2) len by (intro codeword_data[OF _ _ _ enc(1)]) auto
    then show ?thesis using True that mode row[OF True] by (simp add: fec_enc_packet_def direct_packet_def direct_shards_def)
  next
    case False
    then show ?thesis using that mode by (simp add: fec_enc_packet_def direct_packet_def)
  qed
  have out: "map ((!) (map (fec_enc_packet e ?x y (map (codeword code (direct_shards len ps) len) [0..<?x + y])) [0..<?x + y])) ?sent =
      map (direct_packet code (fe_seq e) ?x y len ps) ?sent"
    using x by (intro map_cong refl) (auto simp: p split: if_splits)
  let ?e = "e\<lparr>fe_codes := t, fe_ready := True, fe_first_time_out := fe_first_time e,
      fe_first_time := 0, fe_seq := fe_seq e + 1, fe_counter := 0, fe_blob := blob_encode_clear (fe_blob e), fe_timer := False,
      fe_output := map (direct_packet code (fe_seq e) ?x y len ps) ?sent\<rparr>"
  have "fec_enc_group s e = Some ?e"
    using ready mode sh(2,3) out by (simp add: fec_enc_group_def sh(1) enc(3) Let_def encode_fast_send_def)
  moreover have "enc_rest e ?e" using tab(2) enc(2) blob_ok_clear[of "fe_blob e"] by (simp add: enc_rest_def fec_enc_inv_Nil)
  moreover have "fec_direct_group (fe_seq e) ?x y len ps ?sent (fe_output ?e)"
    unfolding fec_direct_group_def using sh enc(1) x by auto
  ultimately show ?thesis by (intro exI[of _ ?e] exI[of _ y] exI[of _ len]) simp
qed

section \<open>The encoder as a queue\<close>

lemma fec_enc_append_held:
  assumes held: "fec_enc_held ps e" and p: "length p \<le> max_data_len"
    and room: "length ps < (if fp_mode (fe_par e) = 0 then fp_queue_len (fe_par e) else fp_rs_cnt (fe_par e))"
    and fits: "fp_mode (fe_par e) = 0 \<Longrightarrow> ps \<noteq> [] \<Longrightarrow> get_shard_len_next (fp_rs_cnt (fe_par e)) (length p) (fe_blob e) \<le> fp_mtu (fe_par e)"
  shows "\<exists>e'. fec_enc_append now p e = Some e' \<and> fec_enc_held (ps @ [p]) e' \<and> fe_par e' = fe_par e \<and>
    fe_seq e' = fe_seq e \<and> fe_ready e' = fe_ready e \<and> fe_output e' = fe_output e"
proof (cases "fp_mode (fe_par e) = 0")
  case True
  let ?par = "fe_par e" and ?b = "fe_blob e"
  have ok: "blob_ok ps ?b" and par: "fec_par_ok ?par" "1 \<le> fp_rs_cnt ?par" "fp_rs_cnt ?par \<le> 255" "fp_mtu ?par \<le> 3600"
    and cur: "be_current_len ?b \<le> max (fp_rs_cnt ?par * fp_mtu ?par) 3606"
    using held True by (auto simp: fec_enc_held_def fec_par_ok_def rs_wf_def)
  have bound: "fp_rs_cnt ?par * fp_mtu ?par \<le> 255 * 3600" using par by (intro mult_le_mono) auto
  have cur': "be_current_len ?b + 2 + length p \<le> max (fp_rs_cnt ?par * fp_mtu ?par) 3606"
  proof (cases "ps = []")
    case True
    then have "be_current_len ?b = 4" using ok by (simp add: blob_ok_def blob_body_def)
    then show ?thesis using p by simp
  next
    case False
    have "be_current_len ?b + 2 + length p \<le> fp_rs_cnt ?par * fp_mtu ?par"
      using round_up_div_bounds(1)[of "fp_rs_cnt ?par" "be_current_len ?b + 2 + length p"] fits[OF True False] par(2)
      unfolding get_shard_len_next_def by (smt (verit) mult.commute mult_le_mono2 order_trans zero_less_one order.strict_trans2)
    then show ?thesis by simp
  qed
  have n: "be_counter ?b + 1 \<le> max_blob_packet_num" using ok room True par(1) by (auto simp: blob_ok_def fec_par_ok_def)
  have "be_current_len ?b + length p + 2 + 100 < blob_buf_size" using cur' bound by (simp add: blob_buf_size_def max_def split: if_splits)
  then obtain b where b: "blob_encode_input p ?b = Some b" "be_current_len b = be_current_len ?b + 2 + length p"
    using n p by (auto simp: blob_encode_input_def Let_def)
  have "blob_ok (ps @ [p]) b" by (rule blob_ok_input[OF ok b(1)])
  then show ?thesis using held True p room b cur' by (auto simp: fec_enc_append_def Let_def fec_enc_held_def)
next
  case False
  have m: "fp_mode (fe_par e) = 1" using held False by (auto simp: fec_enc_held_def fec_par_ok_def)
  have c: "fe_counter e = length ps" "length ps < 255"
    using held False room by (auto simp: fec_enc_held_def fec_par_ok_def rs_wf_def)
  then show ?thesis using held m p room by (auto simp: fec_enc_append_def Let_def fec_enc_held_def nth_append less_Suc_eq)
qed

text \<open>The packets of the group that a call emits, as sent on the wire.\<close>

definition fec_emits :: "nat \<Rightarrow> u32 \<Rightarrow> bytes option \<Rightarrow> bytes list \<Rightarrow> bytes list \<Rightarrow> bool" where
  "fec_emits mode seq s qs pkts \<longleftrightarrow>
    (if mode = 0 then \<exists>x y len. fec_blob_group seq x y len qs pkts
     else \<exists>y len. fec_direct_group seq (length qs) y len qs
       ((if s \<noteq> None then [length qs - 1] else []) @ [length qs..<length qs + y]) pkts)"

text \<open>A packet that does not complete a group stays in the encoder; in mode 1 it is also sent at once.\<close>

definition fec_keeps :: "u32 \<Rightarrow> bytes list \<Rightarrow> fec_enc \<Rightarrow> bool" where
  "fec_keeps seq ps e \<longleftrightarrow> fe_seq e = seq \<and> (if fp_mode (fe_par e) = 0 then \<not> fe_ready e
     else fe_ready e \<and> fe_output e = [fec_header seq 1 0 0 (length ps - 1) @ direct_row (last ps)])"

text \<open>
  The contract of \<^verbatim>\<open>input\<close>: the packets held before and the new one are, in this order, those of the group
  that is emitted (if any) and those held afterwards. An input is refused only when nothing is held.
\<close>

definition fec_enc_queue :: "bytes list \<Rightarrow> u32 \<Rightarrow> bytes option \<Rightarrow> int \<Rightarrow> fec_enc \<Rightarrow> bool" where
  "fec_enc_queue ps seq s r e' \<longleftrightarrow>
     r = -1 \<and> ps = [] \<and> fec_enc_inv [] e' \<and> \<not> fe_ready e' \<and> fe_seq e' = seq \<or>
     r = 0 \<and> (\<exists>qs rs. qs @ rs = ps @ (case s of None \<Rightarrow> [] | Some p \<Rightarrow> [p]) \<and> fec_enc_inv rs e' \<and>
       (if qs = [] then fec_keeps seq rs e'
        else fe_seq e' = seq + 1 \<and> fe_ready e' \<and> fec_emits (fp_mode (fe_par e')) seq s qs (fe_output e')))"

lemma queue_emit:
  assumes "qs @ rs = ps @ (case s of None \<Rightarrow> [] | Some p \<Rightarrow> [p])" "qs \<noteq> []" "fec_enc_inv rs e'" "fe_seq e' = seq + 1"
    "fe_ready e'" "fec_emits (fp_mode (fe_par e')) seq s qs (fe_output e')"
  shows "fec_enc_queue ps seq s 0 e'"
  unfolding fec_enc_queue_def using assms by (intro disjI2 conjI refl exI[of _ qs] exI[of _ rs]) simp_all

lemma queue_keep: "fec_enc_inv (ps @ [p]) e' \<Longrightarrow> fec_keeps seq (ps @ [p]) e' \<Longrightarrow> fec_enc_queue ps seq (Some p) 0 e'"
  unfolding fec_enc_queue_def by (intro disjI2 conjI refl exI[of _ "[]"] exI[of _ "ps @ [p]"]) simp_all

lemma queue_refuse: "fec_enc_inv [] e' \<Longrightarrow> \<not> fe_ready e' \<Longrightarrow> fe_seq e' = seq \<Longrightarrow> fec_enc_queue [] seq s (-1) e'"
  unfolding fec_enc_queue_def by simp

lemma fec_enc_group_emits:
  assumes "fec_enc_held ps e" "\<not> fe_ready e" "ps \<noteq> []"
  shows "\<exists>e'. fec_enc_group s e = Some e' \<and> enc_rest e e' \<and> fe_ready e' \<and>
    fec_emits (fp_mode (fe_par e)) (fe_seq e) s ps (fe_output e')"
proof (cases "fp_mode (fe_par e) = 0")
  case True
  show ?thesis using fec_enc_group_blob[OF assms(1) True assms(2), of s] True unfolding fec_emits_def by auto
next
  case False
  then have m: "fp_mode (fe_par e) = 1" using assms(1) by (auto simp: fec_enc_held_def fec_par_ok_def)
  show ?thesis using fec_enc_group_direct[OF assms(1) m assms(2,3), of s] m unfolding fec_emits_def by auto
qed

lemma fec_enc_accept_now:
  assumes inv: "fec_enc_inv ps e" and ready: "\<not> fe_ready e" and p: "length p \<le> max_data_len"
    and fits: "fp_mode (fe_par e) = 0 \<Longrightarrow> get_shard_len_next (fp_rs_cnt (fe_par e)) (length p) (fe_blob e) \<le> fp_mtu (fe_par e)"
  shows "\<exists>r e'. fec_enc_accept now (Some p) e = Some (r, e') \<and> fec_enc_queue ps (fe_seq e) (Some p) r e'"
proof -
  let ?par = "fe_par e"
  let ?room = "if fp_mode ?par = 0 then fp_queue_len ?par else fp_rs_cnt ?par"
  have held: "fec_enc_held ps e" and room: "length ps < ?room" using inv by (auto simp: fec_enc_inv_def)
  have m: "fp_mode ?par = 0 \<or> fp_mode ?par = 1" and wf: "rs_wf ?par" and c: "fe_counter e = length ps"
    using held by (auto simp: fec_enc_held_def fec_par_ok_def)
  obtain t where t: "get_tail ?par = Some t" "unat (rs_x t) = fp_rs_cnt ?par" using rs_wf_tail[OF wf] by blast
  obtain e1 where e1: "fec_enc_append now p e = Some e1" "fec_enc_held (ps @ [p]) e1" "fe_par e1 = ?par"
      "fe_seq e1 = fe_seq e" "fe_ready e1 = fe_ready e"
    using fec_enc_append_held[OF held p room fits] by blast
  have c1: "fe_counter e1 = length ps + 1" using e1(2) by (simp add: fec_enc_held_def)
  let ?full = "fe_counter e1 = ?room"
  have acc: "fec_enc_accept now (Some p) e = map_option (Pair 0) (fec_enc_emit ?full (Some p) e1)"
    using m t fits room by (auto simp: fec_enc_accept_def Let_def e1(1) c c1 not_less map_conv_bind_option comp_def split: if_splits)
  show ?thesis
  proof (cases ?full)
    case True
    obtain e2 where e2: "fec_enc_group (Some p) e1 = Some e2" "enc_rest e1 e2" "fe_ready e2"
        "fec_emits (fp_mode (fe_par e1)) (fe_seq e1) (Some p) (ps @ [p]) (fe_output e2)"
      using fec_enc_group_emits[OF e1(2)] ready e1(5) by blast
    have "fec_enc_queue ps (fe_seq e) (Some p) 0 e2"
      using e2(2-4) e1(4) by (intro queue_emit[of "ps @ [p]" "[]"]) (auto simp: enc_rest_def)
    then show ?thesis using acc True e2(1) by (simp add: fec_enc_emit_def)
  next
    case False
    then have inv1: "fec_enc_inv (ps @ [p]) e1" using e1(2,3) room c1 by (auto simp: fec_enc_inv_def split: if_splits)
    let ?e2 = "if fp_mode ?par = 1 then e1\<lparr>fe_ready := True, fe_first_time_out := 0,
        fe_output := [fec_header (fe_seq e1) (fp_mode ?par) 0 0 (length ps) @ fe_input e1 (length ps)]\<rparr> else e1"
    have "length ps + 1 \<le> 255" if "fp_mode ?par = 1" using wf room that by (auto simp: rs_wf_def)
    then have em: "fec_enc_emit ?full (Some p) e1 = Some ?e2"
      using False ready e1(3,5) c1 by (auto simp: fec_enc_emit_def encode_fast_send_def Let_def)
    have "fec_enc_inv (ps @ [p]) ?e2" using inv1 by (auto simp: fec_enc_inv_def fec_enc_held_def)
    moreover have "fec_keeps (fe_seq e) (ps @ [p]) ?e2"
      using e1 m ready by (auto simp: fec_keeps_def fec_enc_held_def direct_row_def nth_append)
    ultimately have "fec_enc_queue ps (fe_seq e) (Some p) 0 ?e2" by (rule queue_keep)
    then show ?thesis using acc em by auto
  qed
qed

lemma fec_enc_accept_delayed:
  assumes inv: "fec_enc_inv ps e" and ready: "\<not> fe_ready e" and p: "length p \<le> max_data_len" and ne: "ps \<noteq> []"
    and m: "fp_mode (fe_par e) = 0" and long: "get_shard_len_next (fp_rs_cnt (fe_par e)) (length p) (fe_blob e) > fp_mtu (fe_par e)"
  shows "\<exists>r e'. fec_enc_accept now (Some p) e = Some (r, e') \<and> fec_enc_queue ps (fe_seq e) (Some p) r e'"
proof -
  let ?par = "fe_par e"
  have held: "fec_enc_held ps e" and room: "length ps < fp_queue_len ?par" using inv m by (auto simp: fec_enc_inv_def)
  have wf: "rs_wf ?par" and c: "fe_counter e = length ps" using held by (auto simp: fec_enc_held_def fec_par_ok_def)
  obtain t where t: "get_tail ?par = Some t" "unat (rs_x t) = fp_rs_cnt ?par" using rs_wf_tail[OF wf] by blast
  obtain e1 where e1: "fec_enc_group (Some p) e = Some e1" "enc_rest e e1" "fe_ready e1"
      "fec_emits (fp_mode ?par) (fe_seq e) (Some p) ps (fe_output e1)"
    using fec_enc_group_emits[OF held ready ne] by blast
  have held1: "fec_enc_held [] e1" "fe_par e1 = ?par" using e1(2) by (auto simp: enc_rest_def fec_enc_inv_def)
  have room1: "length [] < (if fp_mode (fe_par e1) = 0 then fp_queue_len (fe_par e1) else fp_rs_cnt (fe_par e1))"
    using e1(2) by (auto simp: enc_rest_def fec_enc_inv_def split: if_splits)
  obtain e2 where e2: "fec_enc_append now p e1 = Some e2" "fec_enc_held ([] @ [p]) e2" "fe_par e2 = fe_par e1"
      "fe_seq e2 = fe_seq e1" "fe_ready e2 = fe_ready e1" "fe_output e2 = fe_output e1"
    using fec_enc_append_held[OF held1(1) p room1] by blast
  have "fec_enc_accept now (Some p) e = Some (0, e2)"
    using m t ne room long e1(1) e2(1) by (simp add: fec_enc_accept_def Let_def c fec_enc_emit_def)
  moreover have "fec_enc_queue ps (fe_seq e) (Some p) 0 e2"
  proof (rule queue_emit[of ps "[p]"])
    have "1 < fp_queue_len ?par" using room ne by (cases ps) auto
    then show "fec_enc_inv [p] e2" using e2(2,3) held1(2) m by (simp add: fec_enc_inv_def)
  qed (use e1 e2 ne in \<open>auto simp: enc_rest_def\<close>)
  ultimately show ?thesis by blast
qed

text \<open>The timer: the packets held so far become a group.\<close>

lemma fec_enc_accept_flush:
  assumes inv: "fec_enc_inv ps e" and ready: "\<not> fe_ready e" and ne: "ps \<noteq> []"
  shows "\<exists>r e'. fec_enc_accept now None e = Some (r, e') \<and> fec_enc_queue ps (fe_seq e) None r e'"
proof -
  let ?par = "fe_par e"
  have held: "fec_enc_held ps e" using inv by (auto simp: fec_enc_inv_def)
  have m: "fp_mode ?par = 0 \<or> fp_mode ?par = 1" and wf: "rs_wf ?par" and c: "fe_counter e = length ps"
    using held by (auto simp: fec_enc_held_def fec_par_ok_def)
  obtain t where t: "get_tail ?par = Some t" "unat (rs_x t) = fp_rs_cnt ?par" using rs_wf_tail[OF wf] by blast
  obtain e1 where e1: "fec_enc_group None e = Some e1" "enc_rest e e1" "fe_ready e1"
      "fec_emits (fp_mode ?par) (fe_seq e) None ps (fe_output e1)"
    using fec_enc_group_emits[OF held ready ne] by blast
  have "fec_enc_accept now None e = Some (0, e1)"
    using m t ne inv e1(1) by (auto simp: fec_enc_accept_def Let_def c fec_enc_emit_def fec_enc_inv_def)
  moreover have "fec_enc_queue ps (fe_seq e) None 0 e1"
    using e1 ne by (intro queue_emit[of ps "[]"]) (auto simp: enc_rest_def)
  ultimately show ?thesis by blast
qed

lemma fec_enc_refresh_inv:
  assumes inv: "fec_enc_inv ps e" and g: "fec_par_ok g"
  shows "\<exists>e'. fec_enc_refresh g e = Some e' \<and> fec_enc_inv ps e' \<and> fe_ready e' = fe_ready e \<and> fe_seq e' = fe_seq e"
proof (cases "fe_counter e = 0 \<and> fp_version (fe_par e) \<noteq> fp_version g")
  case True
  have ps: "ps = []" "length (fp_rs_par (fe_par e)) = 265"
    using inv True by (auto simp: fec_enc_inv_def fec_enc_held_def fec_par_ok_def rs_wf_def)
  obtain p where p: "clone g (fe_par e) = Some p" "rs_wf p" "fp_mode p = fp_mode g" "fp_mtu p = fp_mtu g" "fp_queue_len p = fp_queue_len g"
    using clone_wf[of g "fe_par e"] g ps(2) by (auto simp: fec_par_ok_def)
  then have "fec_par_ok p" using g by (simp add: fec_par_ok_def)
  then have "fec_enc_inv [] (e\<lparr>fe_par := p\<rparr>)" using inv ps by (simp add: fec_enc_inv_Nil)
  then show ?thesis using True p(1) ps by (simp add: fec_enc_refresh_def)
qed (use inv in \<open>auto simp: fec_enc_refresh_def\<close>)

text \<open>\<^verbatim>\<open>input\<close> never fails an assertion and keeps the contract.\<close>

lemma fec_enc_input_queue:
  assumes inv: "fec_enc_inv ps e" and ready: "\<not> fe_ready e" and g: "fec_par_ok g"
    and p: "\<And>p. s = Some p \<Longrightarrow> length p \<le> max_data_len"
  shows "\<exists>r e'. fec_enc_input g now s e = Some (r, e') \<and> fec_enc_queue ps (fe_seq e) s r e'"
proof -
  obtain e1 where e1: "fec_enc_refresh g e = Some e1" "fec_enc_inv ps e1" "\<not> fe_ready e1" "fe_seq e1 = fe_seq e"
    using fec_enc_refresh_inv[OF inv g] ready by blast
  have c: "fe_counter e1 = length ps" and m: "fp_mode (fe_par e1) = 0 \<or> fp_mode (fe_par e1) = 1" and wf: "rs_wf (fe_par e1)"
    using e1(2) by (auto simp: fec_enc_inv_def fec_enc_held_def fec_par_ok_def)
  obtain t where t: "get_tail (fe_par e1) = Some t" "unat (rs_x t) = fp_rs_cnt (fe_par e1)" using rs_wf_tail[OF wf] by blast
  let ?shard = "\<lambda>p. get_shard_len_next (fp_rs_cnt (fe_par e1)) (length p) (fe_blob e1)"
  consider (flush) "s = None" "ps \<noteq> []" | (none) "s = None" "ps = []"
    | (now) q where "s = Some q" "fp_mode (fe_par e1) = 0 \<longrightarrow> ?shard q \<le> fp_mtu (fe_par e1)"
    | (late) q where "s = Some q" "fp_mode (fe_par e1) = 0" "?shard q > fp_mtu (fe_par e1)" "ps \<noteq> []"
    | (long) q where "s = Some q" "fp_mode (fe_par e1) = 0" "?shard q > fp_mtu (fe_par e1)" "ps = []"
    by (cases s) (auto, meson not_le)
  then have "\<exists>r e'. fec_enc_accept now s e1 = Some (r, e') \<and> fec_enc_queue ps (fe_seq e1) s r e'"
  proof cases
    case flush
    then show ?thesis using fec_enc_accept_flush[OF e1(2,3)] by simp
  next
    case none
    then have "fec_enc_accept now s e1 = Some (-1, e1)" using c m by (auto simp: fec_enc_accept_def Let_def)
    then show ?thesis using queue_refuse[OF _ e1(3) refl] e1(2) none by blast
  next
    case now
    then show ?thesis using fec_enc_accept_now[OF e1(2,3) p] by simp
  next
    case late
    then show ?thesis using fec_enc_accept_delayed[OF e1(2,3) p] by simp
  next
    case long
    then have "fec_enc_accept now s e1 = Some (-1, e1)" using c t by (simp add: fec_enc_accept_def Let_def)
    then show ?thesis using queue_refuse[OF _ e1(3) refl] e1(2) long by blast
  qed
  then show ?thesis using e1(1,4) by (simp add: fec_enc_input_def)
qed

section \<open>An encoder to start from\<close>

definition sample_enc :: fec_enc where
  "sample_enc = \<lparr>fe_seq = 0, fe_par = sample_par, fe_first_time = 0, fe_first_time_out = 0,
     fe_blob = \<lparr>be_input_buf = (\<lambda>_. 0), be_current_len = 4, be_counter = 0\<rparr>, fe_input = (\<lambda>_. []), fe_output = [],
     fe_counter = 0, fe_ready = False, fe_timer = False, fe_codes = code_table_new\<rparr>"

lemma sample_par_ok: "fec_par_ok sample_par"
  using sample_par_wf by (simp add: fec_par_ok_def) (simp add: sample_par_def)

lemma sample_enc_inv: "fec_enc_inv [] sample_enc" "\<not> fe_ready sample_enc" "fe_par sample_enc = sample_par"
  using blob_ok_clear[of "fe_blob sample_enc"] 
  by (simp_all add: fec_enc_inv_Nil sample_par_ok code_table_empty) (simp_all add: sample_enc_def blob_encode_clear_def sample_par_ok code_table_empty)

text \<open>The bytes on the wire that a group of \<open>x\<close> data packets costs.\<close>

definition group_cost :: "fec_parameter \<Rightarrow> blob_encode \<Rightarrow> nat \<Rightarrow> nat" where
  "group_cost par b x = (get_shard_len_next x 0 b + header_overhead) * (x + unat (rs_y (fp_rs_par par ! (x - 1))))"

end
