(* ===== verification/Fec_Replay.thy ===== *)
theory Fec_Replay
  imports Blob
begin

text \<open>
  The memory of finished groups, \<^verbatim>\<open>anti_replay_t\<close> of \<^verbatim>\<open>src/ref/UDPspeeder/fec_manager.h\<close>: a ring of
  sequence numbers with an index into it, and expiry after two minutes. \<open>now\<close> is what
  \<^verbatim>\<open>get_current_time\<close> returns in the call; \<open>None\<close> is a failed assertion.
\<close>

section \<open>Model\<close>

definition anti_replay_buff_size :: nat where
  "anti_replay_buff_size = 30000"

definition anti_replay_timeout :: u64 where
  "anti_replay_timeout = 120 * 1000"

record anti_replay =
  ar_buffer :: "nat \<Rightarrow> u64"
  ar_mp :: "u32 \<Rightarrow> (u64 \<times> nat) option"
  ar_index :: nat

definition ar_clear :: anti_replay where
  "ar_clear = \<lparr>ar_buffer = (\<lambda>_. -1), ar_mp = (\<lambda>_. None), ar_index = 0\<rparr>"

definition ar_is_vaild :: "u64 \<Rightarrow> u32 \<Rightarrow> anti_replay \<Rightarrow> bool \<times> anti_replay" where
  "ar_is_vaild now seq r =
    (case ar_mp r seq of
       None \<Rightarrow> (True, r)
     | Some (my_time, i) \<Rightarrow>
         if now - my_time > anti_replay_timeout
         then (True, r\<lparr>ar_buffer := (ar_buffer r)(i := -1), ar_mp := (ar_mp r)(seq := None)\<rparr>)
         else (False, r))"

definition ar_set_invaild :: "u64 \<Rightarrow> u32 \<Rightarrow> anti_replay \<Rightarrow> anti_replay option" where
  "ar_set_invaild now seq r =
    (case ar_is_vaild now seq r of
       (False, r) \<Rightarrow> Some r
     | (True, r) \<Rightarrow>
         (let i = ar_index r; old = ar_buffer r i in
          if old \<noteq> -1 \<and> ar_mp r (ucast old) = None then None
          else (let mp = (if old \<noteq> -1 then (ar_mp r)(ucast old := None) else ar_mp r) in
            if mp seq \<noteq> None then None
            else Some \<lparr>ar_buffer = (ar_buffer r)(i := ucast seq), ar_mp = mp(seq \<mapsto> (now, i)),
                       ar_index = (if i + 1 = anti_replay_buff_size then 0 else i + 1)\<rparr>)))"

section \<open>The ring and the map mirror each other\<close>

definition ring_ok :: "(nat \<Rightarrow> u64) \<Rightarrow> (u32 \<Rightarrow> (u64 \<times> nat) option) \<Rightarrow> bool" where
  "ring_ok buf mp \<longleftrightarrow>
     (\<forall>seq t i. mp seq = Some (t, i) \<longrightarrow> i < anti_replay_buff_size \<and> buf i = ucast seq) \<and>
     (\<forall>i < anti_replay_buff_size. buf i = -1 \<or> (\<exists>seq t. buf i = ucast seq \<and> mp seq = Some (t, i)))"

definition ar_inv :: "anti_replay \<Rightarrow> bool" where
  "ar_inv r \<longleftrightarrow> ar_index r < anti_replay_buff_size \<and> ring_ok (ar_buffer r) (ar_mp r)"

lemma ucast_u32_neq_m1 [simp]: "(ucast (x :: u32) :: u64) \<noteq> -1"
proof
  assume "(ucast x :: u64) = -1"
  then have "bit (ucast x :: u64) 40" by simp
  then show False by (simp add: bit_unsigned_iff) (auto dest: bit_imp_le_length)
qed

lemma ucast_u32_u64_inj [simp]: "(ucast (x :: u32) :: u64) = ucast y \<longleftrightarrow> x = y"
  by (auto dest: arg_cong[of _ _ "ucast :: u64 \<Rightarrow> u32"] simp: ucast_down_ucast_id is_down)

lemma ucast_ucast_u32 [simp]: "ucast (ucast (x :: u32) :: u64) = x"
  by (simp add: ucast_down_ucast_id is_down)

lemma ring_ok_free:
  assumes ok: "ring_ok buf mp" and m: "mp seq = Some (t, i)"
  shows "ring_ok (buf(i := -1)) (mp(seq := None))"
proof -
  have "j \<noteq> i" if "mp s = Some (t', j)" "s \<noteq> seq" for s t' j
    using ok m that unfolding ring_ok_def by (metis ucast_u32_u64_inj)
  moreover have "s \<noteq> seq" if "buf j = ucast s" "mp s = Some (t', j)" "j \<noteq> i" for s t' j
    using m that by auto
  ultimately show ?thesis
    using ok unfolding ring_ok_def by (auto split: if_splits) metis
qed

lemma ring_ok_put:
  assumes ok: "ring_ok buf mp" and i: "buf i = -1" "i < anti_replay_buff_size" and m: "mp seq = None"
  shows "ring_ok (buf(i := ucast seq)) (mp(seq \<mapsto> (t, i)))"
proof -
  have "j \<noteq> i" if "mp s = Some (t', j)" for s t' j
    using ok i that unfolding ring_ok_def by (metis ucast_u32_neq_m1)
  moreover have "s \<noteq> seq" if "mp s = Some x" for s x using m that by auto
  ultimately show ?thesis
    using ok i unfolding ring_ok_def by (auto split: if_splits) metis
qed

lemma ar_inv_clear [inv_intros]: "ar_inv ar_clear"
  by (simp add: ar_inv_def ar_clear_def anti_replay_buff_size_def ring_ok_def)

lemma ar_is_vaild_inv [inv_intros]: "ar_inv r \<Longrightarrow> ar_inv (snd (ar_is_vaild now seq r))"
  by (auto simp: ar_inv_def ar_is_vaild_def ring_ok_free split: option.splits)

lemma ar_is_vaild_gone: "ar_is_vaild now seq r = (True, r') \<Longrightarrow> ar_mp r' seq = None"
  by (auto simp: ar_is_vaild_def split: option.splits if_splits)

text \<open>What \<^verbatim>\<open>set_invaild\<close> does on a number that is not remembered; its assertions hold.\<close>

lemma ar_set_invaild_new:
  assumes inv: "ar_inv r" and v: "ar_is_vaild now seq r = (True, r1)"
  shows "\<exists>r'. ar_set_invaild now seq r = Some r' \<and> ar_inv r' \<and> ar_mp r' seq = Some (now, ar_index r) \<and>
    ar_index r' = Suc (ar_index r) mod anti_replay_buff_size \<and>
    (\<forall>s t i. ar_mp r s = Some (t, i) \<longrightarrow> i \<noteq> ar_index r \<longrightarrow> s \<noteq> seq \<longrightarrow> ar_mp r' s = Some (t, i))"
proof -
  have inv1: "ar_inv r1" using ar_is_vaild_inv[OF inv, of now seq] by (simp add: v)
  let ?i = "ar_index r1" and ?old = "ar_buffer r1 (ar_index r1)"
  have i: "?i < anti_replay_buff_size" and ok: "ring_ok (ar_buffer r1) (ar_mp r1)" using inv1 by (auto simp: ar_inv_def)
  have gone: "ar_mp r1 seq = None" using v ar_is_vaild_gone by simp
  have same: "ar_index r1 = ar_index r" "\<And>s. s \<noteq> seq \<Longrightarrow> ar_mp r1 s = ar_mp r s"
    using v by (auto simp: ar_is_vaild_def split: option.splits if_splits)
  have nxt: "(if ?i + 1 = anti_replay_buff_size then 0 else ?i + 1) = Suc ?i mod anti_replay_buff_size"
    using i by simp
  define mp where "mp = (if ?old \<noteq> -1 then (ar_mp r1)(ucast ?old := None) else ar_mp r1)"
  have old: "ring_ok ((ar_buffer r1)(?i := -1)) mp \<and> mp seq = None \<and> (?old \<noteq> -1 \<longrightarrow> ar_mp r1 (ucast ?old) \<noteq> None) \<and>
    (\<forall>s t j. ar_mp r1 s = Some (t, j) \<longrightarrow> j \<noteq> ?i \<longrightarrow> mp s = Some (t, j))"
  proof (cases "?old = -1")
    case True
    then show ?thesis using ok gone by (simp add: mp_def fun_upd_idem)
  next
    case False
    then obtain s t where s: "?old = ucast s" "ar_mp r1 s = Some (t, ?i)" using ok i by (auto simp: ring_ok_def)
    then show ?thesis using False gone ring_ok_free[OF ok s(2)] by (auto simp: mp_def)
  qed
  let ?r' = "\<lparr>ar_buffer = (ar_buffer r1)(?i := ucast seq), ar_mp = mp(seq \<mapsto> (now, ?i)),
      ar_index = (if ?i + 1 = anti_replay_buff_size then 0 else ?i + 1)\<rparr>"
  have "ar_set_invaild now seq r = Some ?r'"
    using old by (auto simp: ar_set_invaild_def v Let_def mp_def)
  moreover have "ar_inv ?r'"
    using ring_ok_put[of "(ar_buffer r1)(?i := -1)" mp ?i seq now] old i by (simp add: ar_inv_def)
  ultimately show ?thesis using old same nxt by auto
qed

lemma ar_set_invaild_inv [inv_intros]:
  assumes "ar_inv r"
  shows "\<exists>r'. ar_set_invaild now seq r = Some r' \<and> ar_inv r'"
proof (cases "ar_is_vaild now seq r")
  case (Pair v r1)
  then show ?thesis
    using ar_set_invaild_new[OF assms, of now seq r1] ar_is_vaild_inv[OF assms, of now seq]
    by (cases v) (auto simp: ar_set_invaild_def)
qed

text \<open>How long a mark lasts: a number marked at \<open>t\<close> in slot \<open>i\<close> stays refused while fewer than a ring's
  length of numbers have been marked since and its age is within the timeout.\<close>

definition ar_marked :: "u32 \<Rightarrow> u64 \<Rightarrow> nat \<Rightarrow> nat \<Rightarrow> anti_replay \<Rightarrow> bool" where
  "ar_marked seq t i k r \<longleftrightarrow> ar_inv r \<and> ar_mp r seq = Some (t, i) \<and>
     (\<exists>j \<le> k. ar_index r = (i + 1 + j) mod anti_replay_buff_size)"

lemma ar_marked_invalid:
  "ar_marked seq t i k r \<Longrightarrow> now - t \<le> anti_replay_timeout \<Longrightarrow> ar_is_vaild now seq r = (False, r)"
  by (simp add: ar_marked_def ar_is_vaild_def)

lemma ar_marked_set:
  assumes "ar_marked seq t i k r" "k + 1 < anti_replay_buff_size" "now - t \<le> anti_replay_timeout"
    "ar_set_invaild now s r = Some r'"
  shows "ar_marked seq t i (k + 1) r'"
proof (cases "ar_is_vaild now s r")
  case (Pair v r1)
  let ?N = anti_replay_buff_size
  from assms(1) obtain j where j: "j \<le> k" "ar_index r = (i + 1 + j) mod ?N" and inv: "ar_inv r" and m: "ar_mp r seq = Some (t, i)"
    by (auto simp: ar_marked_def)
  show ?thesis
  proof (cases v)
    case False
    then have "r' = r" using Pair assms(4) by (auto simp: ar_set_invaild_def ar_is_vaild_def split: option.splits if_splits)
    then show ?thesis using assms(1) j by (auto simp: ar_marked_def intro: exI[of _ j])
  next
    case True
    have "s \<noteq> seq" using True Pair ar_marked_invalid[OF assms(1,3)] by auto
    have "i < ?N" using inv m by (auto simp: ar_inv_def ring_ok_def)
    have "ar_index r \<noteq> i"
      using j assms(2) \<open>i < ?N\<close> by (cases "i + 1 + j < ?N") (auto simp: mod_if)
    then obtain "ar_inv r'" "ar_index r' = Suc (ar_index r) mod ?N" "ar_mp r' seq = Some (t, i)"
      using ar_set_invaild_new[OF inv, of now s r1] Pair True assms(4) m \<open>s \<noteq> seq\<close> by auto
    then show ?thesis using j by (auto simp: ar_marked_def mod_Suc_eq intro!: exI[of _ "j + 1"])
  qed
qed

text \<open>A run of marks, each with its time.\<close>

fun ar_run :: "(u64 \<times> u32) list \<Rightarrow> anti_replay \<Rightarrow> anti_replay option" where
  "ar_run [] r = Some r"
| "ar_run ((now, s) # ops) r = (case ar_set_invaild now s r of None \<Rightarrow> None | Some r \<Rightarrow> ar_run ops r)"

lemma ar_run_marked:
  assumes "ar_marked seq t i k r" "k + length ops < anti_replay_buff_size" "\<forall>(now, s) \<in> set ops. now - t \<le> anti_replay_timeout"
  shows "\<exists>r'. ar_run ops r = Some r' \<and> ar_marked seq t i (k + length ops) r'"
  using assms
proof (induction ops arbitrary: r k)
  case (Cons op ops)
  obtain now s where op: "op = (now, s)" by (cases op)
  obtain r1 where r1: "ar_set_invaild now s r = Some r1" using ar_set_invaild_inv[of r now s] Cons.prems(1) by (auto simp: ar_marked_def)
  have "ar_marked seq t i (k + 1) r1" using Cons.prems r1 by (intro ar_marked_set[OF _ _ _ r1]) (auto simp: op)
  from Cons.IH[OF this] show ?case using Cons.prems r1 by (auto simp: op)
qed auto

lemma ar_set_invaild_marks:
  assumes "ar_inv r" "ar_is_vaild now seq r = (True, r1)" "ar_set_invaild now seq r = Some r'"
  shows "\<exists>i. ar_marked seq now i 0 r'"
  using ar_set_invaild_new[OF assms(1,2)] assms(3) by (auto simp: ar_marked_def)

end
