(* ===== verification/Fec_Decode.thy ===== *)
theory Fec_Decode
  imports Fec_Encode Fec_Replay
begin

text \<open>
  The receiver's side of the FEC layer, \<^verbatim>\<open>fec_decode_manager_t\<close> of
  \<^verbatim>\<open>src/ref/UDPspeeder/fec_manager.cpp\<close>: packets are kept in a ring of slots, grouped by sequence number,
  and a group is decoded as soon as enough of it has arrived. \<open>None\<close> is a failed assertion. The clock is
  read once per call. A slot holds the bytes of its packet; what earlier packets left behind them in the
  slot's memory is not tracked, it is the argument \<open>stale\<close> where the code can read it.
\<close>

definition decode_fast_send :: bool where
  "decode_fast_send = True"

record fec_data =
  fd_used :: bool
  fd_seq :: u32
  fd_type :: nat
  fd_data_num :: nat
  fd_redundant_num :: nat
  fd_idx :: nat
  fd_buf :: bytes

text \<open>The value -1 of a field that is not known yet is \<open>None\<close>.\<close>

record fec_group =
  fg_type :: "nat option"
  fg_data_num :: "nat option"
  fg_redundant_num :: nat
  fg_len :: nat
  fg_done :: bool
  fg_mp :: "nat \<Rightarrow> nat option"

definition fec_group_new :: fec_group where
  "fec_group_new = \<lparr>fg_type = None, fg_data_num = None, fg_redundant_num = 0, fg_len = 0, fg_done = False, fg_mp = (\<lambda>_. None)\<rparr>"

record fec_dec =
  dd_replay :: anti_replay
  dd_data :: "nat \<Rightarrow> fec_data"
  dd_mp :: "u32 \<Rightarrow> fec_group option"
  dd_index :: nat
  dd_buff_num :: nat
  dd_output :: "int \<times> bytes list"
  dd_ready :: bool
  dd_codes :: code_table

definition fec_dec_clear :: "fec_dec \<Rightarrow> fec_dec" where
  "fec_dec_clear d = d\<lparr>dd_replay := ar_clear, dd_mp := (\<lambda>_. None),
     dd_data := (\<lambda>i. if i < dd_buff_num d then (dd_data d i)\<lparr>fd_used := False\<rparr> else dd_data d i),
     dd_ready := False, dd_index := 0\<rparr>"

text \<open>Indexes within a group are bytes: the map from index to slot has keys below 256, in ascending order.\<close>

definition group_keys :: "(nat \<Rightarrow> nat option) \<Rightarrow> nat list" where
  "group_keys mp = filter (\<lambda>i. mp i \<noteq> None) [0..<256]"

definition group_size :: "(nat \<Rightarrow> nat option) \<Rightarrow> nat" where
  "group_size mp = length (group_keys mp)"

definition dec_mark :: "u64 \<Rightarrow> u32 \<Rightarrow> fec_dec \<Rightarrow> fec_dec option" where
  "dec_mark now seq d = map_option (\<lambda>r. d\<lparr>dd_replay := r\<rparr>) (ar_set_invaild now seq (dd_replay d))"

text \<open>The packets of a group by index, as the codec expects them.\<close>

definition group_packets :: "nat \<Rightarrow> (nat \<Rightarrow> nat option) \<Rightarrow> (nat \<Rightarrow> bytes) \<Rightarrow> bytes option list" where
  "group_packets n mp buf = map (\<lambda>i. map_option buf (mp i)) [0..<n]"

text \<open>Mode 0: recover the shards and unpack the blob.\<close>

definition dec_group_blob :: "u64 \<Rightarrow> u32 \<Rightarrow> nat \<Rightarrow> nat \<Rightarrow> nat \<Rightarrow> (nat \<Rightarrow> nat option) \<Rightarrow> fec_dec \<Rightarrow> fec_dec option" where
  "dec_group_blob now seq x y len mp d = do {
     let (res, codes) = rs_decode2 x (x + y) (group_packets (x + y) mp (\<lambda>i. fd_buf (dd_data d i))) len (dd_codes d);
     (ret, out) \<leftarrow> res;
     check (ret = 0);
     g \<leftarrow> dd_mp d seq;
     let d = d\<lparr>dd_codes := codes, dd_mp := (dd_mp d)(seq \<mapsto> g\<lparr>fg_done := True\<rparr>)\<rparr>;
     b \<leftarrow> blob_decode_inputs (map (\<lambda>i. the (out ! i)) [0..<x]) blob_decode_clear;
     (case blob_decode_output b of
        None \<Rightarrow> dec_mark now seq d
      | Some output \<Rightarrow> do {
          check (\<not> dd_ready d);
          dec_mark now seq (d\<lparr>dd_ready := True, dd_output := output\<rparr>)
        })
   }"

text \<open>Mode 1: recover the packets, each with its length in front.\<close>

definition dec_group_direct :: "u64 \<Rightarrow> (nat \<Rightarrow> bytes) \<Rightarrow> u32 \<Rightarrow> nat \<Rightarrow> nat \<Rightarrow> nat \<Rightarrow> nat \<Rightarrow> (nat \<Rightarrow> nat option) \<Rightarrow> fec_dec \<Rightarrow> fec_dec option" where
  "dec_group_direct now stale seq inner_index x y group_len mp d =
    (let bufs = map (\<lambda>k. fd_buf (dd_data d (the (mp k)))) (group_keys mp);
         max_len = fold (\<lambda>b m. if length b > m then length b else m) bufs 0
     in if (\<exists>b \<in> set bufs. length b < 2) \<or> max_len \<noteq> group_len then dec_mark now seq d
     else do {
       let packets = group_packets (x + y) mp (\<lambda>i. fd_buf (dd_data d i) @ replicate (max_len - length (fd_buf (dd_data d i))) 0);
       let missed = filter (\<lambda>i. packets ! i = None \<or> i = inner_index) [0..<x];
       let (res, codes) = rs_decode2 x (x + y) packets max_len (dd_codes d);
       (ret, out) \<leftarrow> res;
       check (ret = 0);
       g \<leftarrow> dd_mp d seq;
       let d = d\<lparr>dd_codes := codes, dd_mp := (dd_mp d)(seq \<mapsto> g\<lparr>fg_done := True\<rparr>)\<rparr>;
       let lens = map (\<lambda>i. unat (read_u16 (the (out ! i)))) [0..<x];
       if \<forall>l \<in> set lens. l \<le> max_data_len then do {
         let outs = (if decode_fast_send then missed else [0..<x]);
         check (\<not> dd_ready d);
         dec_mark now seq (d\<lparr>dd_ready := True,
           dd_output := (int (length outs), map (\<lambda>i. take (lens ! i) (drop 2 (the (out ! i)) @ stale i)) outs)\<rparr>)
       } else dec_mark now seq (d\<lparr>dd_ready := False\<rparr>)
     })"

text \<open>A slot that is taken for a new packet takes its old group with it.\<close>

definition dec_evict :: "u64 \<Rightarrow> fec_dec \<Rightarrow> fec_dec option" where
  "dec_evict now d =
    (let slot = dd_data d (dd_index d) in
     if fd_used slot
     then map_option (\<lambda>d. d\<lparr>dd_mp := (dd_mp d)(fd_seq slot := None)\<rparr>) (dec_mark now (fd_seq slot) d)
     else Some d)"

text \<open>The part of \<^verbatim>\<open>input\<close> after the packet has been stored, up to the label \<^verbatim>\<open>end\<close>.\<close>

definition dec_stored :: "u64 \<Rightarrow> (nat \<Rightarrow> bytes) \<Rightarrow> u32 \<Rightarrow> nat \<Rightarrow> nat \<Rightarrow> nat \<Rightarrow> nat \<Rightarrow> fec_dec \<Rightarrow> fec_dec option" where
  "dec_stored now stale seq type data_num inner_index len d = do {
     g \<leftarrow> dd_mp d seq;
     let mp = fg_mp g; let sz = group_size mp;
     if type = 0 \<and> sz > data_num then dec_mark now seq d
     else if type \<noteq> 0 \<and> fg_data_num g \<noteq> None \<and> sz > the (fg_data_num g) + 1 then dec_mark now seq d
     else if type = 0 \<and> sz = data_num \<or> type \<noteq> 0 \<and> fg_data_num g \<noteq> None \<and> sz \<ge> the (fg_data_num g) then do {
       x \<leftarrow> fg_data_num g;
       let y = fg_redundant_num g;
       if type = 0 then dec_group_blob now seq x y len mp d
       else dec_group_direct now stale seq inner_index x y (fg_len g) mp d
     }
     else if decode_fast_send \<and> type = 1 \<and> data_num = 0 then do {
       check (\<not> dd_ready d);
       Some (d\<lparr>dd_ready := True, dd_output := (1, [drop 2 (fd_buf (dd_data d (dd_index d)))])\<rparr>)
     }
     else Some d
   }"

text \<open>The group's fields after a packet with these numbers; \<open>None\<close> is a mismatch, the return value -1.\<close>

definition group_update :: "nat \<Rightarrow> nat \<Rightarrow> nat \<Rightarrow> nat \<Rightarrow> fec_group \<Rightarrow> fec_group option" where
  "group_update type data_num redundant_num len g =
    (if fg_type g \<noteq> None \<and> fg_type g \<noteq> Some type then None
     else (let g = g\<lparr>fg_type := Some type\<rparr> in
       if data_num \<noteq> 0 then
         (case fg_data_num g of
            None \<Rightarrow> Some (g\<lparr>fg_data_num := Some data_num, fg_redundant_num := redundant_num, fg_len := len\<rparr>)
          | Some x \<Rightarrow> if x \<noteq> data_num \<or> fg_redundant_num g \<noteq> redundant_num \<or> fg_len g \<noteq> len then None else Some g)
       else Some g))"

text \<open>Storing an accepted packet, from the check of the next slot to the end of \<^verbatim>\<open>input\<close>.\<close>

definition dec_admit :: "u64 \<Rightarrow> (nat \<Rightarrow> bytes) \<Rightarrow> u32 \<Rightarrow> nat \<Rightarrow> nat \<Rightarrow> nat \<Rightarrow> nat \<Rightarrow> bytes \<Rightarrow> fec_group \<Rightarrow> fec_dec \<Rightarrow> (int \<times> fec_dec) option" where
  "dec_admit now stale seq type data_num redundant_num inner_index body g d = do {
     let slot = dd_data d (dd_index d);
     d \<leftarrow> dec_evict now d;
     if fd_used slot \<and> fd_seq slot = seq then Some (-1, d)
     else do {
       check (dd_index d < dd_buff_num d);
       let i = dd_index d;
       let d = d\<lparr>dd_data := (dd_data d)(i := \<lparr>fd_used = True, fd_seq = seq, fd_type = type,
             fd_data_num = data_num, fd_redundant_num = redundant_num, fd_idx = inner_index, fd_buf = body\<rparr>),
           dd_mp := (dd_mp d)(seq \<mapsto> g\<lparr>fg_mp := (fg_mp g)(inner_index \<mapsto> i)\<rparr>)\<rparr>;
       d \<leftarrow> dec_stored now stale seq type data_num inner_index (length body) d;
       Some (0, d\<lparr>dd_index := (if i + 1 = dd_buff_num d then 0 else i + 1)\<rparr>)
     }
   }"

definition fec_dec_input :: "u64 \<Rightarrow> (nat \<Rightarrow> bytes) \<Rightarrow> bytes \<Rightarrow> fec_dec \<Rightarrow> (int \<times> fec_dec) option" where
  "fec_dec_input now stale s d = do {
     check (length s + 100 < buf_len);
     if length s < 8 then Some (-1, d)
     else do {
       let seq = read_u32 s; let type = unat (s ! 4); let data_num = unat (s ! 5);
       let redundant_num = unat (s ! 6); let inner_index = unat (s ! 7);
       let body = drop 8 s; let len = length body;
       if type = 1 \<and> len < 2 then Some (-1, d)
       else if type = 1 \<and> data_num = 0 \<and> unat (read_u16 body) + 2 \<noteq> len then Some (-1, d)
       else if type = 0 \<and> data_num = 0 then Some (-1, d)
       else if data_num + redundant_num \<ge> max_fec_packet_num then Some (-1, d)
       else (case ar_is_vaild now seq (dd_replay d) of
         (False, r) \<Rightarrow> Some (0, d\<lparr>dd_replay := r\<rparr>)
       | (True, r) \<Rightarrow>
           (let g = (case dd_mp d seq of None \<Rightarrow> fec_group_new | Some g \<Rightarrow> g);
                d = d\<lparr>dd_replay := r, dd_mp := (dd_mp d)(seq \<mapsto> g)\<rparr> in
            if fg_done g then Some (-1, d)
            else if fg_mp g inner_index \<noteq> None then Some (-1, d)
            else (case group_update type data_num redundant_num len g of
                None \<Rightarrow> Some (-1, d\<lparr>dd_mp := (dd_mp d)(seq \<mapsto> (if fg_type g = None then g\<lparr>fg_type := Some type\<rparr> else g))\<rparr>)
              | Some g \<Rightarrow>
                  dec_admit now stale seq type data_num redundant_num inner_index body g (d\<lparr>dd_mp := (dd_mp d)(seq \<mapsto> g)\<rparr>))))
     }
   }"

definition fec_dec_output :: "fec_dec \<Rightarrow> (int \<times> bytes list) option \<times> fec_dec" where
  "fec_dec_output d = (if \<not> dd_ready d then (None, d) else (Some (dd_output d), d\<lparr>dd_ready := False\<rparr>))"

section \<open>Packets of other groups\<close>

text \<open>Nothing that happens to another group changes what the decoder holds of the group \<open>seq\<close>.\<close>

definition dec_frame :: "u32 \<Rightarrow> fec_dec \<Rightarrow> fec_dec \<Rightarrow> bool" where
  "dec_frame seq d d' \<longleftrightarrow> dd_mp d' seq = dd_mp d seq \<and>
     (ar_inv (dd_replay d) \<and> ar_mp (dd_replay d) seq = None \<longrightarrow> ar_inv (dd_replay d') \<and> ar_mp (dd_replay d') seq = None) \<and>
     (code_table_ok (dd_codes d) \<longrightarrow> code_table_ok (dd_codes d')) \<and>
     dd_buff_num d' = dd_buff_num d \<and> dd_index d' = dd_index d \<and> dd_data d' = dd_data d"

lemma dec_frame_refl: "dec_frame seq d d"
  by (simp add: dec_frame_def)

lemma dec_frame_trans: "dec_frame seq d d' \<Longrightarrow> dec_frame seq d' d'' \<Longrightarrow> dec_frame seq d d''"
  by (auto simp: dec_frame_def)

lemma dec_frame_ready: "dec_frame seq d (d'\<lparr>dd_ready := r\<rparr>) \<longleftrightarrow> dec_frame seq d d'"
  "dec_frame seq d (d'\<lparr>dd_ready := r, dd_output := out\<rparr>) \<longleftrightarrow> dec_frame seq d d'"
  by (auto simp: dec_frame_def)

lemma dec_frame_mp: "s \<noteq> seq \<Longrightarrow> dec_frame seq d (d'\<lparr>dd_mp := (dd_mp d')(s := g)\<rparr>) \<longleftrightarrow> dec_frame seq d d'"
  by (auto simp: dec_frame_def)

lemma ar_is_vaild_other:
  "ar_is_vaild now s r = (v, r') \<Longrightarrow> ar_mp r seq = None \<Longrightarrow> ar_mp r' seq = None"
  by (auto simp: ar_is_vaild_def split: option.splits if_splits)

lemma ar_set_invaild_other:
  assumes "ar_set_invaild now s r = Some r'" "s \<noteq> seq" "ar_mp r seq = None"
  shows "ar_mp r' seq = None"
proof -
  obtain v r1 where v: "ar_is_vaild now s r = (v, r1)" by fastforce
  show ?thesis
    using assms(1,2) ar_is_vaild_other[OF v assms(3)]
    by (cases v) (auto simp: ar_set_invaild_def v Let_def split: if_splits)
qed

lemma dec_mark_frame: "dec_mark now s d = Some d' \<Longrightarrow> s \<noteq> seq \<Longrightarrow> dec_frame seq d d'"
proof -
  assume m: "dec_mark now s d = Some d'" and s: "s \<noteq> seq"
  then obtain r where r: "ar_set_invaild now s (dd_replay d) = Some r" "d' = d\<lparr>dd_replay := r\<rparr>"
    by (auto simp: dec_mark_def)
  then show ?thesis
    using ar_set_invaild_inv[of "dd_replay d" now s] ar_set_invaild_other[OF r(1) s] by (auto simp: dec_frame_def)
qed

lemma dec_group_blob_frame:
  assumes "dec_group_blob now s x y len mp d = Some d'" "s \<noteq> seq"
  shows "dec_frame seq d d'"
proof -
  obtain res codes where rs: "rs_decode2 x (x + y) (group_packets (x + y) mp (\<lambda>i. fd_buf (dd_data d i))) len (dd_codes d) = (res, codes)"
    by fastforce
  let ?d1 = "\<lambda>g. d\<lparr>dd_codes := codes, dd_mp := (dd_mp d)(s \<mapsto> g\<lparr>fg_done := True\<rparr>)\<rparr>"
  obtain g d1 where "dec_mark now s d1 = Some d'" "d1 = ?d1 g \<or> (\<exists>out. d1 = (?d1 g)\<lparr>dd_ready := True, dd_output := out\<rparr>)"
    using assms(1) by (auto simp: dec_group_blob_def rs Let_def bind_eq_Some_conv split: option.splits prod.splits)
  moreover have "dec_frame seq d (?d1 g)"
    using rs_decode2_codes[OF _ rs] assms(2) by (auto simp: dec_frame_def)
  ultimately have "dec_frame seq d d1" "dec_mark now s d1 = Some d'" by (auto simp: dec_frame_ready)
  then show ?thesis using dec_mark_frame[OF _ assms(2)] dec_frame_trans by blast
qed

lemma dec_group_direct_frame:
  assumes "dec_group_direct now stale s ii x y gl mp d = Some d'" "s \<noteq> seq"
  shows "dec_frame seq d d'"
proof -
  let ?bufs = "map (\<lambda>k. fd_buf (dd_data d (the (mp k)))) (group_keys mp)"
  let ?ml = "fold (\<lambda>b m. if length b > m then length b else m) ?bufs 0"
  let ?p = "group_packets (x + y) mp (\<lambda>i. fd_buf (dd_data d i) @ replicate (?ml - length (fd_buf (dd_data d i))) 0)"
  obtain res codes where rs: "rs_decode2 x (x + y) ?p ?ml (dd_codes d) = (res, codes)" by fastforce
  let ?d1 = "\<lambda>g. d\<lparr>dd_codes := codes, dd_mp := (dd_mp d)(s \<mapsto> g\<lparr>fg_done := True\<rparr>)\<rparr>"
  consider "dec_mark now s d = Some d'" | g d1 where "dec_mark now s d1 = Some d'"
      "(\<exists>out. d1 = (?d1 g)\<lparr>dd_ready := True, dd_output := out\<rparr>) \<or> d1 = (?d1 g)\<lparr>dd_ready := False\<rparr>"
    using assms(1) by (fastforce simp: dec_group_direct_def rs Let_def bind_eq_Some_conv split: option.splits prod.splits if_splits)
  then show ?thesis
  proof cases
    case 2
    have "dec_frame seq d (?d1 g)" using rs_decode2_codes[OF _ rs] assms(2) by (auto simp: dec_frame_def)
    then have "dec_frame seq d d1" using 2(2) by (auto simp: dec_frame_ready)
    then show ?thesis using dec_mark_frame[OF 2(1) assms(2)] dec_frame_trans by blast
  qed (rule dec_mark_frame[OF _ assms(2)])
qed

lemma dec_stored_frame:
  "dec_stored now stale s type data_num ii len d = Some d' \<Longrightarrow> s \<noteq> seq \<Longrightarrow> dec_frame seq d d'"
  by (auto simp: dec_stored_def Let_def bind_eq_Some_conv dec_frame_ready dec_frame_refl
      split: if_splits intro: dec_mark_frame dec_group_blob_frame dec_group_direct_frame)

lemma dec_evict_frame:
  assumes "dec_evict now d = Some d'" "\<not> (fd_used (dd_data d (dd_index d)) \<and> fd_seq (dd_data d (dd_index d)) = seq)"
  shows "dec_frame seq d d'"
proof (cases "fd_used (dd_data d (dd_index d))")
  case True
  then obtain d1 where "dec_mark now (fd_seq (dd_data d (dd_index d))) d = Some d1"
      "d' = d1\<lparr>dd_mp := (dd_mp d1)(fd_seq (dd_data d (dd_index d)) := None)\<rparr>"
    using assms(1) by (auto simp: dec_evict_def Let_def)
  then show ?thesis using assms(2) True dec_mark_frame by (auto simp: dec_frame_mp)
qed (use assms in \<open>simp add: dec_evict_def Let_def dec_frame_refl\<close>)

text \<open>One slot is written, or none.\<close>

definition dec_moves :: "u32 \<Rightarrow> fec_dec \<Rightarrow> fec_dec \<Rightarrow> bool" where
  "dec_moves seq d d' \<longleftrightarrow> dd_mp d' seq = dd_mp d seq \<and>
     (ar_inv (dd_replay d) \<and> ar_mp (dd_replay d) seq = None \<longrightarrow> ar_inv (dd_replay d') \<and> ar_mp (dd_replay d') seq = None) \<and>
     (code_table_ok (dd_codes d) \<longrightarrow> code_table_ok (dd_codes d')) \<and> dd_buff_num d' = dd_buff_num d \<and>
     (dd_index d' = dd_index d \<and> dd_data d' = dd_data d \<or>
      dd_index d < dd_buff_num d \<and> dd_index d' = Suc (dd_index d) mod dd_buff_num d \<and>
      (\<exists>v. fd_seq v \<noteq> seq \<and> dd_data d' = (dd_data d)(dd_index d := v)))"

lemma dec_frame_moves: "dec_frame seq d d' \<Longrightarrow> dec_moves seq d d'"
  by (simp add: dec_frame_def dec_moves_def)

lemma dec_admit_other:
  assumes adm: "dec_admit now stale s type dn rn ii body g d = Some (r, d')" and s: "s \<noteq> seq"
    and slot: "\<not> (fd_used (dd_data d (dd_index d)) \<and> fd_seq (dd_data d (dd_index d)) = seq)"
  shows "dec_moves seq d d'"
proof -
  obtain d1 where ev: "dec_evict now d = Some d1" using adm by (auto simp: dec_admit_def Let_def bind_eq_Some_conv)
  have f1: "dec_frame seq d d1" by (rule dec_evict_frame[OF ev slot])
  show ?thesis
  proof (cases "fd_used (dd_data d (dd_index d)) \<and> fd_seq (dd_data d (dd_index d)) = s")
    case True
    then show ?thesis using adm f1 by (auto simp: dec_admit_def Let_def ev intro: dec_frame_moves)
  next
    case False
    let ?v = "\<lparr>fd_used = True, fd_seq = s, fd_type = type, fd_data_num = dn, fd_redundant_num = rn, fd_idx = ii, fd_buf = body\<rparr>"
    let ?i = "dd_index d1"
    let ?d2 = "d1\<lparr>dd_data := (dd_data d1)(?i := ?v), dd_mp := (dd_mp d1)(s \<mapsto> g\<lparr>fg_mp := (fg_mp g)(ii \<mapsto> ?i)\<rparr>)\<rparr>"
    obtain d3 where d3: "dec_stored now stale s type dn ii (length body) ?d2 = Some d3" "?i < dd_buff_num d1"
      "d' = d3\<lparr>dd_index := (if ?i + 1 = dd_buff_num d3 then 0 else ?i + 1)\<rparr>"
      using adm False by (auto simp: dec_admit_def Let_def ev bind_eq_Some_conv)
    have f3: "dec_frame seq ?d2 d3" by (rule dec_stored_frame[OF d3(1) s])
    have "dd_buff_num d3 = dd_buff_num d1" "?i = dd_index d" "dd_data d1 = dd_data d" using f1 f3 by (auto simp: dec_frame_def)
    then show ?thesis
      using f1 f3 s d3(2) unfolding d3(3) dec_moves_def dec_frame_def by (auto intro!: exI[of _ ?v])
  qed
qed

lemma fec_dec_input_other:
  assumes inp: "fec_dec_input now stale s d = Some (r, d')" and s: "length s < 8 \<or> read_u32 s \<noteq> seq"
    and slot: "\<not> (fd_used (dd_data d (dd_index d)) \<and> fd_seq (dd_data d (dd_index d)) = seq)"
  shows "dec_moves seq d d'"
proof (cases "d' = d")
  case True
  then show ?thesis by (simp add: dec_frame_moves dec_frame_refl)
next
  case False
  let ?s = "read_u32 s"
  have ne: "?s \<noteq> seq" using inp s False by (auto simp: fec_dec_input_def bind_eq_Some_conv split: if_splits)
  obtain v r1 where v: "ar_is_vaild now ?s (dd_replay d) = (v, r1)" by fastforce
  have f0: "dec_frame seq d (d\<lparr>dd_replay := r1\<rparr>)"
    using ar_is_vaild_inv[of "dd_replay d" now ?s] ar_is_vaild_other[OF v] v by (auto simp: dec_frame_def)
  have f1: "dec_frame seq d (d\<lparr>dd_replay := r1, dd_mp := (dd_mp d)(?s \<mapsto> g)\<rparr>)" for g
    using dec_frame_mp[OF ne, of d "d\<lparr>dd_replay := r1\<rparr>" "Some g"] f0 by simp
  consider "d' = d\<lparr>dd_replay := r1\<rparr>" | g where "d' = d\<lparr>dd_replay := r1, dd_mp := (dd_mp d)(?s \<mapsto> g)\<rparr>"
    | g ty dn rn ii body r' where "dec_admit now stale ?s ty dn rn ii body g (d\<lparr>dd_replay := r1, dd_mp := (dd_mp d)(?s \<mapsto> g)\<rparr>) = Some (r', d')"
    using inp False
    by (cases v) (fastforce simp: fec_dec_input_def v Let_def bind_eq_Some_conv split: if_splits option.splits)+
  then show ?thesis
  proof cases
    case 3
    have "dec_moves seq (d\<lparr>dd_replay := r1, dd_mp := (dd_mp d)(?s \<mapsto> g)\<rparr>) d'"
      using slot by (intro dec_admit_other[OF 3 ne]) simp
    then show ?thesis using f1[of g] unfolding dec_moves_def dec_frame_def by auto
  qed (use f0 f1 dec_frame_moves in auto)
qed

section \<open>Packets of one group\<close>

text \<open>
  The decoder while a mode 0 group of \<open>x\<close> data and \<open>y\<close> redundant packets with bodies \<open>pay\<close> arrives:
  the indexes in \<open>ks\<close> have been received and \<open>a\<close> slots have been written since slot \<open>i0\<close>, where the
  first packet of the group could go. \<open>slot t\<close> below is the \<open>t\<close>-th slot from there.
\<close>

definition grp_slots :: "u32 \<Rightarrow> (nat \<Rightarrow> nat) \<Rightarrow> nat \<Rightarrow> (nat \<Rightarrow> fec_data) \<Rightarrow> bool" where
  "grp_slots seq slot a data \<longleftrightarrow> (\<forall>i. fd_used (data i) \<and> fd_seq (data i) = seq \<longrightarrow> (\<exists>t<a. i = slot t))"

definition grp_held :: "nat \<Rightarrow> nat \<Rightarrow> nat \<Rightarrow> (nat \<Rightarrow> bytes) \<Rightarrow> (nat \<Rightarrow> nat) \<Rightarrow> nat list \<Rightarrow> nat \<Rightarrow> (nat \<Rightarrow> fec_data) \<Rightarrow> fec_group option \<Rightarrow> bool" where
  "grp_held x y len pay slot ks a data og \<longleftrightarrow>
     (if ks = [] then og = None
      else \<exists>g. og = Some g \<and> fg_type g = Some 0 \<and> fg_data_num g = Some x \<and> fg_redundant_num g = y \<and>
        fg_len g = len \<and> \<not> fg_done g \<and> (\<forall>k. fg_mp g k = None \<longleftrightarrow> k \<notin> set ks) \<and>
        (\<forall>k \<in> set ks. \<exists>t<a. fg_mp g k = Some (slot t) \<and> fd_buf (data (slot t)) = pay k))"

definition grp_recv :: "u32 \<Rightarrow> nat \<Rightarrow> nat \<Rightarrow> nat \<Rightarrow> (nat \<Rightarrow> bytes) \<Rightarrow> nat \<Rightarrow> nat list \<Rightarrow> nat \<Rightarrow> fec_dec \<Rightarrow> bool" where
  "grp_recv seq x y len pay i0 ks a d \<longleftrightarrow>
     ar_inv (dd_replay d) \<and> ar_mp (dd_replay d) seq = None \<and> code_table_ok (dd_codes d) \<and>
     0 < dd_buff_num d \<and> dd_index d = (i0 + a) mod dd_buff_num d \<and>
     grp_slots seq (\<lambda>t. (i0 + t) mod dd_buff_num d) a (dd_data d) \<and> distinct ks \<and> set ks \<subseteq> {..<x + y} \<and>
     grp_held x y len pay (\<lambda>t. (i0 + t) mod dd_buff_num d) ks a (dd_data d) (dd_mp d seq)"

lemma grp_heldE:
  assumes "grp_held x y len pay slot ks a data og" "ks \<noteq> []"
  obtains g where "og = Some g" "fg_type g = Some 0" "fg_data_num g = Some x" "fg_redundant_num g = y"
    "fg_len g = len" "\<not> fg_done g" "\<And>k. fg_mp g k = None \<longleftrightarrow> k \<notin> set ks"
    "\<And>k. k \<in> set ks \<Longrightarrow> \<exists>t<a. fg_mp g k = Some (slot t) \<and> fd_buf (data (slot t)) = pay k"
  using assms unfolding grp_held_def by auto

lemma grp_heldI:
  assumes "fg_type g = Some 0" "fg_data_num g = Some x" "fg_redundant_num g = y"
    "fg_len g = len" "\<not> fg_done g" "\<And>k. fg_mp g k = None \<longleftrightarrow> k \<notin> set ks" "ks \<noteq> []"
    "\<And>k. k \<in> set ks \<Longrightarrow> \<exists>t<a. fg_mp g k = Some (slot t) \<and> fd_buf (data (slot t)) = pay k"
  shows "grp_held x y len pay slot ks a data (Some g)"
  using assms unfolding grp_held_def by auto

lemma grp_held_write:
  assumes "grp_held x y len pay slot ks a data og" "\<And>t. t < a \<Longrightarrow> slot t \<noteq> i"
  shows "grp_held x y len pay slot ks (Suc a) (data(i := v)) og"
proof (cases "ks = []")
  case False
  then obtain g where g: "og = Some g" "fg_type g = Some 0" "fg_data_num g = Some x" "fg_redundant_num g = y"
      "fg_len g = len" "\<not> fg_done g" "\<forall>k. fg_mp g k = None \<longleftrightarrow> k \<notin> set ks"
      "\<forall>k \<in> set ks. \<exists>t<a. fg_mp g k = Some (slot t) \<and> fd_buf (data (slot t)) = pay k"
    using assms(1) by (auto simp: grp_held_def)
  have "\<forall>k \<in> set ks. \<exists>t<Suc a. fg_mp g k = Some (slot t) \<and> fd_buf ((data(i := v)) (slot t)) = pay k"
    using g(8) assms(2) by (metis fun_upd_other less_SucI)
  then show ?thesis using g False by (simp add: grp_held_def)
qed (use assms in \<open>simp add: grp_held_def\<close>)

lemma grp_slots_write:
  "grp_slots seq slot a data \<Longrightarrow> fd_seq v \<noteq> seq \<or> i = slot a \<Longrightarrow> grp_slots seq slot (Suc a) (data(i := v))"
  unfolding grp_slots_def by (metis fun_upd_apply less_SucI lessI)

lemma mod_shift_neq: "t < a \<Longrightarrow> a < N \<Longrightarrow> (i0 + a) mod N \<noteq> (i0 + t) mod (N :: nat)"
proof
  assume t: "t < a" "a < N" and eq: "(i0 + a) mod N = (i0 + t) mod N"
  have "N dvd (i0 + a) - (i0 + t)" using eq by (intro mod_eq_dvd_iff_nat[THEN iffD1]) (use t in auto)
  then have "N dvd a - t" by simp
  then show False using t by (auto dest: dvd_imp_le)
qed

text \<open>Traffic of other groups does not disturb the group while fewer slots than the ring has are used.\<close>

lemma grp_recv_other:
  assumes g: "grp_recv seq x y len pay i0 ks a d" and a: "a < dd_buff_num d"
    and inp: "fec_dec_input now stale s d = Some (r, d')" and s: "length s < 8 \<or> read_u32 s \<noteq> seq"
  shows "grp_recv seq x y len pay i0 ks a (d'\<lparr>dd_ready := rd\<rparr>) \<or> grp_recv seq x y len pay i0 ks (Suc a) (d'\<lparr>dd_ready := rd\<rparr>)"
    and "dd_buff_num d' = dd_buff_num d"
proof -
  let ?N = "dd_buff_num d" and ?i = "(i0 + a) mod dd_buff_num d"
  have slot: "\<not> (fd_used (dd_data d (dd_index d)) \<and> fd_seq (dd_data d (dd_index d)) = seq)"
    using g mod_shift_neq[OF _ a] by (auto simp: grp_recv_def grp_slots_def)
  have m: "dec_moves seq d d'" by (rule fec_dec_input_other[OF inp s slot])
  have i: "dd_index d = ?i" using g by (simp add: grp_recv_def)
  show "dd_buff_num d' = ?N" using m by (simp add: dec_moves_def)
  consider "dd_index d' = dd_index d" "dd_data d' = dd_data d"
    | v where "dd_index d' = Suc ?i mod ?N" "fd_seq v \<noteq> seq" "dd_data d' = (dd_data d)(?i := v)"
    using m unfolding dec_moves_def i by blast
  then show "grp_recv seq x y len pay i0 ks a (d'\<lparr>dd_ready := rd\<rparr>) \<or> grp_recv seq x y len pay i0 ks (Suc a) (d'\<lparr>dd_ready := rd\<rparr>)"
  proof cases
    case 1
    then show ?thesis using g m by (auto simp: grp_recv_def dec_moves_def)
  next
    case 2
    let ?slot = "\<lambda>t. (i0 + t) mod ?N"
    have fresh: "?slot t \<noteq> ?i" if "t < a" for t using mod_shift_neq[OF that a, of i0] by metis
    have "grp_held x y len pay ?slot ks (Suc a) (dd_data d') (dd_mp d seq)"
      unfolding 2(3) using g fresh by (intro grp_held_write) (auto simp: grp_recv_def)
    moreover have "grp_slots seq ?slot (Suc a) (dd_data d')"
      unfolding 2(3) using g 2(2) by (intro grp_slots_write) (auto simp: grp_recv_def)
    ultimately have "grp_recv seq x y len pay i0 ks (Suc a) (d'\<lparr>dd_ready := rd\<rparr>)"
      using g m 2(1) unfolding grp_recv_def dec_moves_def by (simp add: mod_Suc_eq)
    then show ?thesis ..
  qed
qed

lemma group_size_dom: "(\<And>k. mp k = None \<longleftrightarrow> k \<notin> set ks) \<Longrightarrow> distinct ks \<Longrightarrow> set ks \<subseteq> {..<256} \<Longrightarrow> group_size mp = length ks"
proof -
  assume mp: "\<And>k. mp k = None \<longleftrightarrow> k \<notin> set ks" and d: "distinct ks" "set ks \<subseteq> {..<256}"
  have "set (group_keys mp) = set ks" using mp d by (auto simp: group_keys_def)
  moreover have "distinct (group_keys mp)" by (simp add: group_keys_def)
  ultimately show ?thesis unfolding group_size_def using d(1) by (metis distinct_card)
qed

text \<open>The header, as the decoder reads it.\<close>

lemma fec_header_parse:
  assumes "mode < 256" "x < 256" "y < 256" "i < 256"
  shows "length (fec_header seq mode x y i @ body) = 8 + length body" "read_u32 (fec_header seq mode x y i @ body) = seq"
    "unat ((fec_header seq mode x y i @ body) ! 4) = mode" "unat ((fec_header seq mode x y i @ body) ! 5) = x"
    "unat ((fec_header seq mode x y i @ body) ! 6) = y" "unat ((fec_header seq mode x y i @ body) ! 7) = i"
    "drop 8 (fec_header seq mode x y i @ body) = body"
  using assms by (simp_all add: fec_header_def nth_append unat_of_nat)

lemma dec_evict_total:
  assumes "ar_inv (dd_replay d)"
  shows "\<exists>d'. dec_evict now d = Some d' \<and> dd_ready d' = dd_ready d"
  using ar_set_invaild_inv[OF assms, of now "fd_seq (dd_data d (dd_index d))"]
  by (auto simp: dec_evict_def dec_mark_def Let_def)

text \<open>An expected packet is stored: what is left to do is \<open>dec_stored\<close>.\<close>

lemma grp_recv_store:
  assumes g: "grp_recv seq x y len pay i0 ks a d" and a: "a < dd_buff_num d"
    and x: "1 \<le> x" "x + y < 255" and k: "k < x + y" "k \<notin> set ks" and len: "length (pay k) = len" "len + 108 < buf_len"
  obtains d2 where
    "fec_dec_input now stale (fec_header seq 0 x y k @ pay k) d =
      do { d3 \<leftarrow> dec_stored now stale seq 0 x k len d2;
           Some (0, d3\<lparr>dd_index := (if dd_index d + 1 = dd_buff_num d3 then 0 else dd_index d + 1)\<rparr>) }"
    "grp_recv seq x y len pay i0 (k # ks) (Suc a) (d2\<lparr>dd_index := Suc (dd_index d) mod dd_buff_num d\<rparr>)"
    "dd_index d2 = dd_index d" "dd_buff_num d2 = dd_buff_num d" "dd_ready d2 = dd_ready d"
proof -
  let ?N = "dd_buff_num d" and ?slot = "\<lambda>t. (i0 + t) mod dd_buff_num d" and ?i = "dd_index d"
  let ?pkt = "fec_header seq 0 x y k @ pay k"
  have i: "?i = ?slot a" "?i < ?N" using g by (auto simp: grp_recv_def)
  define g0 where "g0 = (case dd_mp d seq of None \<Rightarrow> fec_group_new | Some g \<Rightarrow> g)"
  define g1 where "g1 = g0\<lparr>fg_type := Some 0, fg_data_num := Some x, fg_redundant_num := y, fg_len := len\<rparr>"
  have held: "grp_held x y len pay ?slot ks a (dd_data d) (dd_mp d seq)" using g by (simp add: grp_recv_def)
  have g0: "\<not> fg_done g0" "fg_mp g0 k = None" "group_update 0 x y len g0 = Some g1"
    "\<And>j. fg_mp g0 j = None \<longleftrightarrow> j \<notin> set ks"
    "\<forall>j \<in> set ks. \<exists>t<a. fg_mp g0 j = Some (?slot t) \<and> fd_buf (dd_data d (?slot t)) = pay j"
    using held k(2) x by (auto simp: grp_held_def g0_def g1_def fec_group_new_def group_update_def Let_def split: if_splits)
  let ?d1 = "d\<lparr>dd_mp := (dd_mp d)(seq \<mapsto> g1)\<rparr>"
  have slot: "\<not> (fd_used (dd_data d ?i) \<and> fd_seq (dd_data d ?i) = seq)"
    using g mod_shift_neq[OF _ a, of _ i0] unfolding i(1) by (auto simp: grp_recv_def grp_slots_def)
  obtain d1 where d1: "dec_evict now ?d1 = Some d1" "dd_ready d1 = dd_ready d"
    using dec_evict_total[of ?d1 now] g by (auto simp: grp_recv_def)
  have f: "dec_frame seq ?d1 d1" using slot by (intro dec_evict_frame[OF d1(1)]) simp
  let ?v = "\<lparr>fd_used = True, fd_seq = seq, fd_type = 0, fd_data_num = x, fd_redundant_num = y, fd_idx = k, fd_buf = pay k\<rparr>"
  define d2 where "d2 = d1\<lparr>dd_data := (dd_data d1)(?i := ?v), dd_mp := (dd_mp d1)(seq \<mapsto> g1\<lparr>fg_mp := (fg_mp g1)(k \<mapsto> ?i)\<rparr>)\<rparr>"
  have valid: "ar_is_vaild now seq (dd_replay d) = (True, dd_replay d)" using g by (simp add: grp_recv_def ar_is_vaild_def)
  have same: "dd_index d1 = ?i" "dd_buff_num d1 = ?N" "dd_data d1 = dd_data d" using f by (auto simp: dec_frame_def)
  have "fec_dec_input now stale ?pkt d = dec_admit now stale seq 0 x y k (pay k) g1 ?d1"
    using fec_header_parse[of 0 x y k seq "pay k"] x k len g0(1-3)
    by (simp add: fec_dec_input_def Let_def valid g0_def [symmetric])
  also have "\<dots> = do { d3 \<leftarrow> dec_stored now stale seq 0 x k len d2;
      Some (0, d3\<lparr>dd_index := (if ?i + 1 = dd_buff_num d3 then 0 else ?i + 1)\<rparr>) }"
    using slot i(2) len(1) by (auto simp: dec_admit_def d1(1) same Let_def d2_def)
  finally have "fec_dec_input now stale ?pkt d = \<dots>" .
  moreover have "grp_recv seq x y len pay i0 (k # ks) (Suc a) (d2\<lparr>dd_index := Suc ?i mod ?N\<rparr>)"
  proof -
    have fresh: "?slot t \<noteq> ?i" if "t < a" for t using mod_shift_neq[OF that a, of i0] unfolding i(1) by metis
    have "\<exists>t<Suc a. ((fg_mp g0)(k \<mapsto> ?i)) j = Some (?slot t) \<and> fd_buf (((dd_data d)(?i := ?v)) (?slot t)) = pay j"
      if j: "j \<in> set (k # ks)" for j
    proof (cases "j = k")
      case True
      then show ?thesis using i(1) by (intro exI[of _ a]) simp
    next
      case False
      then obtain t where "t < a" "fg_mp g0 j = Some (?slot t)" "fd_buf (dd_data d (?slot t)) = pay j" using g0(5) j by auto
      then show ?thesis using fresh False by (intro exI[of _ t]) auto
    qed
    then have "grp_held x y len pay ?slot (k # ks) (Suc a) ((dd_data d)(?i := ?v)) (Some (g1\<lparr>fg_mp := (fg_mp g1)(k \<mapsto> ?i)\<rparr>))"
      using g0(1,4) by (intro grp_heldI) (simp_all add: g1_def)
    moreover have "grp_slots seq ?slot (Suc a) ((dd_data d)(?i := ?v))"
      using g i(1) by (intro grp_slots_write) (auto simp: grp_recv_def)
    moreover have "Suc ?i mod ?N = (i0 + Suc a) mod ?N" unfolding i(1) by (simp add: mod_Suc_eq)
    moreover have "ar_inv (dd_replay d1) \<and> ar_mp (dd_replay d1) seq = None" "code_table_ok (dd_codes d1)"
      "0 < ?N" "distinct (k # ks)" "set (k # ks) \<subseteq> {..<x + y}"
      using g f k by (auto simp: grp_recv_def dec_frame_def)
    ultimately show ?thesis unfolding grp_recv_def d2_def by (simp add: same)
  qed
  ultimately show thesis using that[of d2] same d1(2) by (simp add: d2_def)
qed

lemma grp_recv_own_more:
  assumes g: "grp_recv seq x y len pay i0 ks a d" and a: "a < dd_buff_num d"
    and x: "1 \<le> x" "x + y < 255" and k: "k < x + y" "k \<notin> set ks" and len: "length (pay k) = len" "len + 108 < buf_len"
    and more: "Suc (length ks) < x"
  shows "\<exists>d'. fec_dec_input now stale (fec_header seq 0 x y k @ pay k) d = Some (0, d') \<and>
    grp_recv seq x y len pay i0 (k # ks) (Suc a) d' \<and> dd_ready d' = dd_ready d \<and> dd_buff_num d' = dd_buff_num d"
proof -
  obtain d2 where d2: "fec_dec_input now stale (fec_header seq 0 x y k @ pay k) d =
      do { d3 \<leftarrow> dec_stored now stale seq 0 x k len d2;
           Some (0, d3\<lparr>dd_index := (if dd_index d + 1 = dd_buff_num d3 then 0 else dd_index d + 1)\<rparr>) }"
    and gr: "grp_recv seq x y len pay i0 (k # ks) (Suc a) (d2\<lparr>dd_index := Suc (dd_index d) mod dd_buff_num d\<rparr>)"
    and same: "dd_index d2 = dd_index d" "dd_buff_num d2 = dd_buff_num d" "dd_ready d2 = dd_ready d"
    by (rule grp_recv_store[OF g a x k len])
  have "grp_held x y len pay (\<lambda>t. (i0 + t) mod dd_buff_num d) (k # ks) (Suc a) (dd_data d2) (dd_mp d2 seq)"
    using gr same by (simp add: grp_recv_def)
  then obtain g2 where g2: "dd_mp d2 seq = Some g2" "fg_data_num g2 = Some x"
      "\<And>j. fg_mp g2 j = None \<longleftrightarrow> j \<notin> set (k # ks)"
    by (rule grp_heldE) blast+
  have "group_size (fg_mp g2) = length (k # ks)"
    using gr x by (intro group_size_dom[OF g2(3)]) (auto simp: grp_recv_def)
  then have "dec_stored now stale seq 0 x k len d2 = Some d2"
    using more g2 by (simp add: dec_stored_def Let_def)
  moreover have "(if dd_index d + 1 = dd_buff_num d then 0 else dd_index d + 1) = Suc (dd_index d) mod dd_buff_num d"
  proof -
    have "dd_index d < dd_buff_num d" using g by (auto simp: grp_recv_def)
    then show ?thesis by (cases "dd_index d + 1 = dd_buff_num d") auto
  qed
  ultimately show ?thesis using d2 gr same by simp
qed

text \<open>The packet that completes the group: the blob is decoded and ready.\<close>

lemma grp_recv_own_last:
  assumes g: "grp_recv seq x y len pay i0 ks a d" and a: "a < dd_buff_num d"
    and x: "1 \<le> x" "x + y < 255" and k: "k < x + y" "k \<notin> set ks" and len: "length (pay k) = len" "len + 108 < buf_len"
    and last: "Suc (length ks) = x" and ready: "\<not> dd_ready d"
    and code: "fec_new x (x + y) = Some code" and pay: "\<And>j. j < x + y \<Longrightarrow> pay j = codeword code shards len j"
    and shards: "length shards = x" "\<And>s. s \<in> set shards \<Longrightarrow> length s = len"
    and blob: "concat shards = write_u32 (word_of_nat (length ps)) @ blob_body ps @ rest"
      "length ps \<le> max_blob_packet_num" "\<forall>p \<in> set ps. length p \<le> 65535"
  shows "\<exists>d'. fec_dec_input now stale (fec_header seq 0 x y k @ pay k) d = Some (0, d') \<and>
    dd_ready d' \<and> dd_output d' = (int (length ps), ps)"
proof -
  obtain d2 where d2: "fec_dec_input now stale (fec_header seq 0 x y k @ pay k) d =
      do { d3 \<leftarrow> dec_stored now stale seq 0 x k len d2;
           Some (0, d3\<lparr>dd_index := (if dd_index d + 1 = dd_buff_num d3 then 0 else dd_index d + 1)\<rparr>) }"
    and gr: "grp_recv seq x y len pay i0 (k # ks) (Suc a) (d2\<lparr>dd_index := Suc (dd_index d) mod dd_buff_num d\<rparr>)"
    and same: "dd_index d2 = dd_index d" "dd_buff_num d2 = dd_buff_num d" "dd_ready d2 = dd_ready d"
    by (rule grp_recv_store[OF g a x k len])
  let ?slot = "\<lambda>t. (i0 + t) mod dd_buff_num d"
  have "grp_held x y len pay ?slot (k # ks) (Suc a) (dd_data d2) (dd_mp d2 seq)"
    using gr same by (simp add: grp_recv_def)
  then obtain g2 where g2: "dd_mp d2 seq = Some g2" "fg_data_num g2 = Some x" "fg_redundant_num g2 = y"
      "\<And>j. fg_mp g2 j = None \<longleftrightarrow> j \<notin> set (k # ks)"
      "\<And>j. j \<in> set (k # ks) \<Longrightarrow> \<exists>t<Suc a. fg_mp g2 j = Some (?slot t) \<and> fd_buf (dd_data d2 (?slot t)) = pay j"
    by (rule grp_heldE) blast+
  have ks: "distinct (k # ks)" "set (k # ks) \<subseteq> {..<x + y}" and ok: "code_table_ok (dd_codes d2)" "ar_inv (dd_replay d2)"
    using gr by (auto simp: grp_recv_def)
  have size: "group_size (fg_mp g2) = x" using ks x last by (subst group_size_dom[OF g2(4)]) auto
  let ?p = "group_packets (x + y) (fg_mp g2) (\<lambda>i. fd_buf (dd_data d2 i))"
  have p: "?p ! j = (if j \<in> set (k # ks) then Some (codeword code shards len j) else None)" if "j < x + y" for j
    using that g2(4)[of j] g2(5)[of j] pay[of j] by (auto simp: group_packets_def)
  have "set (rs_received ?p (x + y)) = set (k # ks)" using p ks(2) by (auto simp: set_rs_received split: if_splits)
  then have cnt: "length (rs_received ?p (x + y)) = x"
    using distinct_card[OF rs_received_props(1)[of ?p "x + y"]] distinct_card[OF ks(1)] last by simp
  have "\<exists>out. rs_decode code ?p len = Some (0, out) \<and> length out = x + y \<and>
      (\<forall>j<x. out ! j = Some (shards ! j)) \<and> length (rs_received out (x + y)) = length (rs_received ?p (x + y))"
  proof (rule rs_decode_recovers[OF _ _ _ code])
    show "length ?p = x + y" by (simp add: group_packets_def)
    show "x \<le> length (rs_received ?p (x + y))" by (simp add: cnt)
    show "?p ! i = None \<or> ?p ! i = Some (codeword code shards len i)" if "i < x + y" for i using p[OF that] by simp
  qed (use x shards in auto)
  then obtain out where out: "rs_decode code ?p len = Some (0, out)" "\<forall>j<x. out ! j = Some (shards ! j)" by blast
  obtain codes where rs: "rs_decode2 x (x + y) ?p len (dd_codes d2) = (Some (0, out), codes)"
    using rs_code2(2)[OF ok(1) _ _ _ code, of ?p len] x out(1) by auto
  have sh: "map (\<lambda>i. the (out ! i)) [0..<x] = shards" using out(2) shards(1) by (intro nth_equalityI) auto
  have "x * len + 100 < blob_buf_size"
  proof -
    have "x * len \<le> 254 * 3692" using x len(2) by (intro mult_le_mono) auto
    then show ?thesis by (simp add: blob_buf_size_def)
  qed
  then obtain b where b: "blob_decode_inputs shards blob_decode_clear = Some b" "bd_input_buf b = concat shards"
    using blob_decode_inputs_ok[of shards len blob_decode_clear] shards x by (auto simp: blob_decode_clear_def)
  have bo: "blob_decode_output b = Some (int (length ps), ps)"
    using b(2) blob by (intro blob_decode_output_packed) auto
  obtain r where r: "ar_set_invaild now seq (dd_replay d2) = Some r" using ar_set_invaild_inv[OF ok(2)] by blast
  have "dec_stored now stale seq 0 x k len d2 = dec_group_blob now seq x y len (fg_mp g2) d2"
    using g2 size by (simp add: dec_stored_def Let_def)
  also have "\<dots> = Some (d2\<lparr>dd_codes := codes, dd_mp := (dd_mp d2)(seq \<mapsto> g2\<lparr>fg_done := True\<rparr>), dd_ready := True,
      dd_output := (int (length ps), ps), dd_replay := r\<rparr>)"
    using ready same(3) by (simp add: dec_group_blob_def rs Let_def g2(1) sh b(1) bo dec_mark_def r)
  finally show ?thesis using d2 by simp
qed

end
