(* ===== verification/Fec_Link.thy ===== *)
theory Fec_Link
  imports Fec_Decode
begin

text \<open>
  Sender and receiver of the FEC layer together: a group of mode 0 is decoded from any \<open>x\<close> of its packets,
  whatever else arrives in between, as long as the ring of the decoder is not used up.
\<close>

text \<open>A datagram is given to the decoder, then the decoder is asked for its output.\<close>

definition fec_dec_step :: "u64 \<Rightarrow> (nat \<Rightarrow> bytes) \<Rightarrow> bytes \<Rightarrow> fec_dec \<Rightarrow> ((int \<times> bytes list) option \<times> fec_dec) option" where
  "fec_dec_step now stale s d = do {
     (r, d) \<leftarrow> fec_dec_input now stale s d;
     Some (fec_dec_output d)
   }"

type_synonym dgram = "u64 \<times> (nat \<Rightarrow> bytes) \<times> bytes"

fun fec_dec_run :: "dgram list \<Rightarrow> fec_dec \<Rightarrow> ((int \<times> bytes list) option list \<times> fec_dec) option" where
  "fec_dec_run [] d = Some ([], d)"
| "fec_dec_run ((now, stale, s) # evs) d = do {
     (out, d) \<leftarrow> fec_dec_step now stale s d;
     (outs, d) \<leftarrow> fec_dec_run evs d;
     Some (out # outs, d)
   }"

definition dg_data :: "dgram \<Rightarrow> bytes" where
  "dg_data e = snd (snd e)"

text \<open>Nothing of the group \<open>seq\<close> is known to the decoder.\<close>

definition dec_fresh :: "u32 \<Rightarrow> fec_dec \<Rightarrow> bool" where
  "dec_fresh seq d \<longleftrightarrow> ar_inv (dd_replay d) \<and> ar_mp (dd_replay d) seq = None \<and> code_table_ok (dd_codes d) \<and>
     dd_index d < dd_buff_num d \<and> (\<forall>i. \<not> (fd_used (dd_data d i) \<and> fd_seq (dd_data d i) = seq)) \<and>
     dd_mp d seq = None \<and> \<not> dd_ready d"

lemma dec_fresh_recv: "dec_fresh seq d \<Longrightarrow> grp_recv seq x y len pay (dd_index d) [] 0 d"
  by (auto simp: dec_fresh_def grp_recv_def grp_slots_def grp_held_def)

lemma grp_recv_ready [simp]: "grp_recv seq x y len pay i0 ks a (d\<lparr>dd_ready := r\<rparr>) \<longleftrightarrow> grp_recv seq x y len pay i0 ks a d"
  by (simp add: grp_recv_def)

lemma fec_dec_output_snd: "fec_dec_output d = (out, d') \<Longrightarrow> d' = d\<lparr>dd_ready := False\<rparr>"
  by (auto simp: fec_dec_output_def split: if_splits)

lemma fec_header_index: "k < 256 \<Longrightarrow> unat ((fec_header seq 0 x y k @ b) ! 7) = k"
  by (simp add: fec_header_def nth_append unat_of_nat)

lemma fec_dec_step_other:
  assumes g: "grp_recv seq x y len pay i0 ks a d" "a < dd_buff_num d"
    and s: "length s < 8 \<or> read_u32 s \<noteq> seq" and st: "fec_dec_step now stale s d = Some (out, d')"
  shows "\<exists>a'. grp_recv seq x y len pay i0 ks a' d' \<and> a' \<le> Suc a" "dd_buff_num d' = dd_buff_num d" "\<not> dd_ready d'"
proof -
  obtain r d1 where d1: "fec_dec_input now stale s d = Some (r, d1)" "fec_dec_output d1 = (out, d')"
    using st by (auto simp: fec_dec_step_def bind_eq_Some_conv)
  note d' = fec_dec_output_snd[OF d1(2)]
  show "\<exists>a'. grp_recv seq x y len pay i0 ks a' d' \<and> a' \<le> Suc a"
    using grp_recv_other(1)[OF g d1(1) s, of False] unfolding d' by (meson le_SucI order_refl)
  show "dd_buff_num d' = dd_buff_num d" "\<not> dd_ready d'"
    using grp_recv_other(2)[OF g d1(1) s] unfolding d' by simp_all
qed

text \<open>Before the last packet that is needed.\<close>

lemma fec_dec_run_collect:
  assumes pk: "pkts = map (\<lambda>k. fec_header seq 0 x y k @ pay k) [0..<x + y]"
    and x: "1 \<le> x" "x + y < 255" and pay: "\<And>k. k < x + y \<Longrightarrow> length (pay k) = len" and len: "len + 108 < buf_len"
  defines "own \<equiv> filter (\<lambda>e. dg_data e \<in> set pkts)" and "idx \<equiv> map (\<lambda>e. unat (dg_data e ! 7))"
  assumes g: "grp_recv seq x y len pay i0 ks a d" and ready: "\<not> dd_ready d" and room: "a + length evs < dd_buff_num d"
    and evs: "\<forall>e \<in> set evs. dg_data e \<in> set pkts \<or> length (dg_data e) < 8 \<or> read_u32 (dg_data e) \<noteq> seq"
    and new: "distinct (idx (own evs) @ ks)" and few: "length (own evs) + length ks < x"
    and run: "fec_dec_run evs d = Some (outs, d')"
  shows "\<exists>a'. grp_recv seq x y len pay i0 (rev (idx (own evs)) @ ks) a' d' \<and> a' \<le> a + length evs \<and>
    \<not> dd_ready d' \<and> dd_buff_num d' = dd_buff_num d"
  using g ready room evs new few run
proof (induction evs arbitrary: ks a d outs)
  case Nil
  then show ?case by (auto simp: own_def idx_def)
next
  case (Cons e evs)
  obtain now stale s where e: "e = (now, stale, s)" by (cases e) auto
  obtain out d1 outs' where d1: "fec_dec_step now stale s d = Some (out, d1)" "fec_dec_run evs d1 = Some (outs', d')"
    using Cons.prems(7) e by (auto simp: bind_eq_Some_conv)
  have a: "a < dd_buff_num d" using Cons.prems(3) by simp
  show ?case
  proof (cases "s \<in> set pkts")
    case False
    then have s: "length s < 8 \<or> read_u32 s \<noteq> seq" using Cons.prems(4) e by (auto simp: dg_data_def)
    have o: "own (e # evs) = own evs" using False e by (simp add: own_def dg_data_def)
    note st = fec_dec_step_other[OF Cons.prems(1) a s d1(1)]
    obtain a1 where a1: "grp_recv seq x y len pay i0 ks a1 d1" "a1 \<le> Suc a" using st(1) by blast
    have "\<exists>a'. grp_recv seq x y len pay i0 (rev (idx (own evs)) @ ks) a' d' \<and> a' \<le> a1 + length evs \<and>
        \<not> dd_ready d' \<and> dd_buff_num d' = dd_buff_num d1"
      using Cons.prems(3-6) o a1(2) st(2) by (intro Cons.IH[OF a1(1) st(3) _ _ _ _ d1(2)]) auto
    then obtain a2 where "grp_recv seq x y len pay i0 (rev (idx (own evs)) @ ks) a2 d'" "a2 \<le> a1 + length evs"
        "\<not> dd_ready d'" "dd_buff_num d' = dd_buff_num d1" by blast
    then show ?thesis unfolding o using a1(2) st(2) by (intro exI[of _ a2]) simp
  next
    case True
    then obtain k where k: "k < x + y" "s = fec_header seq 0 x y k @ pay k" using pk by auto
    have i: "unat (s ! 7) = k" using k x by (simp only: k(2) fec_header_index)
    have o: "own (e # evs) = e # own evs" "idx (own (e # evs)) = k # idx (own evs)"
      using True e i by (auto simp: own_def idx_def dg_data_def)
    have nk: "k \<notin> set ks" using Cons.prems(5) o by auto
    have more: "Suc (length ks) < x" using Cons.prems(6) o by simp
    obtain d2 where d2: "fec_dec_input now stale s d = Some (0, d2)" "grp_recv seq x y len pay i0 (k # ks) (Suc a) d2"
        "dd_ready d2 = dd_ready d" "dd_buff_num d2 = dd_buff_num d"
      using grp_recv_own_more[OF Cons.prems(1) a x k(1) nk pay[OF k(1)] len more] k(2) by blast
    have eq: "d1 = d2" using d1(1) d2(1,3) Cons.prems(2) by (auto simp: fec_dec_step_def fec_dec_output_def)
    have "\<exists>a'. grp_recv seq x y len pay i0 (rev (idx (own evs)) @ (k # ks)) a' d' \<and> a' \<le> Suc a + length evs \<and>
        \<not> dd_ready d' \<and> dd_buff_num d' = dd_buff_num d2"
      using Cons.prems(2-6) o d2(3,4) d1(2) unfolding eq by (intro Cons.IH[OF d2(2)]) (auto simp: idx_def)
    then show ?thesis using o d2(4) by simp
  qed
qed

text \<open>
  Any \<open>x\<close> different packets of a group, in any order and mixed with at most as much other traffic as the
  ring has slots, give back the packets of the group with the \<open>x\<close>-th of them.
\<close>

lemma blob_group_delivered:
  assumes grp: "fec_blob_group seq x y len ps pkts" and xy: "x + y < 255" and fresh: "dec_fresh seq d"
    and evs: "\<forall>e \<in> set evs. dg_data e \<in> set pkts \<or> length (dg_data e) < 8 \<or> read_u32 (dg_data e) \<noteq> seq"
    and room: "length evs < dd_buff_num d"
    and own: "distinct (filter (\<lambda>s. s \<in> set pkts) (map dg_data evs))" "Suc (length (filter (\<lambda>s. s \<in> set pkts) (map dg_data evs))) = x"
    and run: "fec_dec_run evs d = Some (outs, d')" and s: "s \<in> set pkts" "s \<notin> set (map dg_data evs)"
  shows "\<exists>d''. fec_dec_step now stale s d' = Some (Some (int (length ps), ps), d'')"
proof -
  obtain code shards rest where G: "1 \<le> x" "len \<le> max_data_len + 6" "fec_new x (x + y) = Some code" "length shards = x"
      "\<forall>s \<in> set shards. length s = len" "concat shards = write_u32 (word_of_nat (length ps)) @ blob_body ps @ rest"
      "length ps \<le> max_blob_packet_num" "\<forall>p \<in> set ps. length p \<le> 65535"
      "pkts = map (\<lambda>i. fec_header seq 0 x y i @ codeword code shards len i) [0..<x + y]"
    using grp unfolding fec_blob_group_def by blast
  let ?pay = "codeword code shards len" and ?own = "filter (\<lambda>e. dg_data e \<in> set pkts) evs"
  let ?idx = "map (\<lambda>e. unat (dg_data e ! 7)) ?own"
  have len: "len + 108 < buf_len" using G(2) by simp
  have eq: "filter (\<lambda>s. s \<in> set pkts) (map dg_data evs) = map dg_data ?own" by (induction evs) auto
  have inj: "t = fec_header seq 0 x y (unat (t ! 7)) @ ?pay (unat (t ! 7))" if t: "t \<in> set pkts" for t
  proof -
    obtain k where "k < x + y" "t = fec_header seq 0 x y k @ ?pay k" using t G(9) by auto
    then show ?thesis using fec_header_index[of k seq x y "?pay k"] xy by simp
  qed
  have dist: "distinct ?idx"
  proof -
    have "set (map dg_data ?own) \<subseteq> set pkts" by auto
    moreover have "inj_on (\<lambda>e. unat (e ! 7)) (set pkts)" using inj by (metis (mono_tags, lifting) inj_onI)
    ultimately have "inj_on (\<lambda>e. unat (e ! 7)) (set (map dg_data ?own))" by (rule inj_on_subset[rotated])
    then have "distinct (map (\<lambda>e. unat (e ! 7)) (map dg_data ?own))" using own(1) eq by (simp add: distinct_map comp_inj_on)
    then show ?thesis by (simp add: comp_def)
  qed
  have "\<exists>a'. grp_recv seq x y len ?pay (dd_index d) (rev ?idx @ []) a' d' \<and> a' \<le> 0 + length evs \<and>
      \<not> dd_ready d' \<and> dd_buff_num d' = dd_buff_num d"
    using dist own(2) eq fresh room
    by (intro fec_dec_run_collect[OF G(9,1) xy _ len dec_fresh_recv[OF fresh] _ _ evs _ _ run]) (auto simp: dec_fresh_def)
  then obtain a where a: "grp_recv seq x y len ?pay (dd_index d) (rev ?idx) a d'" "a \<le> length evs"
    "\<not> dd_ready d'" "dd_buff_num d' = dd_buff_num d" by auto
  obtain k where k: "k < x + y" "s = fec_header seq 0 x y k @ ?pay k" using s(1) G(9) by auto
  have "unat (s ! 7) = k" using k xy by (simp only: k(2) fec_header_index)
  then have nk: "k \<notin> set (rev ?idx)" using inj s k(2) by auto
  have "\<exists>d''. fec_dec_input now stale (fec_header seq 0 x y k @ ?pay k) d' = Some (0, d'') \<and>
      dd_ready d'' \<and> dd_output d'' = (int (length ps), ps)"
  proof (rule grp_recv_own_last[OF a(1) _ G(1) xy k(1) nk _ len _ a(3) G(3) refl G(4)])
    show "Suc (length (rev ?idx)) = x" using own(2) eq by simp
    show "a < dd_buff_num d'" using a(2,4) room by simp
  qed (use G in auto)
  then show ?thesis using k(2) by (auto simp: fec_dec_step_def fec_dec_output_def)
qed

text \<open>The number of data packets of a group, as its packets have it in their headers; and what a receiver has to get of a
  group before its last packet: all but one of as many different packets, in between other traffic.\<close>

definition group_data_num :: "bytes list \<Rightarrow> nat" where
  "group_data_num pkts = unat (pkts ! 0 ! 5)"

definition collects :: "u32 \<Rightarrow> bytes list \<Rightarrow> dgram list \<Rightarrow> fec_dec \<Rightarrow> fec_dec \<Rightarrow> bool" where
  "collects seq pkts evs d d' \<longleftrightarrow> dec_fresh seq d \<and> length evs < dd_buff_num d \<and> (\<exists>outs. fec_dec_run evs d = Some (outs, d')) \<and>
     (\<forall>v \<in> set evs. dg_data v \<in> set pkts \<or> length (dg_data v) < 8 \<or> read_u32 (dg_data v) \<noteq> seq) \<and>
     distinct (filter (\<lambda>v. v \<in> set pkts) (map dg_data evs)) \<and>
     Suc (length (filter (\<lambda>v. v \<in> set pkts) (map dg_data evs))) = group_data_num pkts"

lemma group_data_num_blob: "fec_blob_group seq x y len ps pkts \<Longrightarrow> x + y < 255 \<Longrightarrow> group_data_num pkts = x"
  by (auto simp: fec_blob_group_def group_data_num_def fec_header_def simp del: nth_map) (subst nth_map; auto simp: nth_append unat_of_nat)

lemma collects_deliver:
  assumes "fec_blob_group seq x y len ps pkts" "x + y < 255" "collects seq pkts evs d d'" "t \<in> set pkts" "t \<notin> set (map dg_data evs)"
  shows "\<exists>d''. fec_dec_step now stale t d' = Some (Some (int (length ps), ps), d'')"
  using assms(3-5) blob_group_delivered[OF assms(1,2)] group_data_num_blob[OF assms(1,2)] by (auto simp: collects_def)

definition sample_dec :: fec_dec where
  "sample_dec = fec_dec_clear \<lparr>dd_replay = ar_clear, dd_data = (\<lambda>_. \<lparr>fd_used = False, fd_seq = 0, fd_type = 0, fd_data_num = 0, fd_redundant_num = 0, fd_idx = 0, fd_buf = []\<rparr>), dd_mp = (\<lambda>_. None), dd_index = 0, dd_buff_num = 2000,
     dd_output = (0, []), dd_ready = False, dd_codes = code_table_new\<rparr>"

lemma sample_dec_num: "dd_buff_num sample_dec = 2000"
  by (simp add: sample_dec_def fec_dec_clear_def)

lemma sample_dec_fresh: "dec_fresh seq sample_dec"
  using ar_inv_clear by (simp add: dec_fresh_def sample_dec_def fec_dec_clear_def code_table_empty ar_clear_def)

end
