(* ===== verification/Crc32.thy ===== *)
theory Crc32
  imports Crc32_Table
begin

text \<open>
  \<^verbatim>\<open>src/ref/UDPspeeder/crc32/Crc32.cpp\<close>: the checksum of the packets in eleven implementations, and the
  combination of two checksums. A state of the register is a 32-bit word; \<^verbatim>\<open>crc32_bitwise\<close> is the reference,
  the others are shown equal to it. The code reads words from memory in little-endian order.
\<close>

section \<open>The implementations\<close>

definition Polynomial :: u32 where
  "Polynomial = 0xEDB88320"

definition crc_bit :: "u32 \<Rightarrow> u32" where
  "crc_bit crc = drop_bit 1 crc XOR (- (crc AND 1) AND Polynomial)"

definition crc_byte :: "u32 \<Rightarrow> u32" where
  "crc_byte crc = (crc_bit ^^ 8) crc"

definition crc32_bitwise :: "bytes \<Rightarrow> u32 \<Rightarrow> u32" where
  "crc32_bitwise data previousCrc32 = NOT (fold (\<lambda>current crc. crc_byte (crc XOR ucast current)) data (NOT previousCrc32))"

definition Crc32Lookup16 :: "u32 list" where
  "Crc32Lookup16 = [
    0x00000000, 0x1DB71064, 0x3B6E20C8, 0x26D930AC, 0x76DC4190, 0x6B6B51F4, 0x4DB26158, 0x5005713C,
    0xEDB88320, 0xF00F9344, 0xD6D6A3E8, 0xCB61B38C, 0x9B64C2B0, 0x86D3D2D4, 0xA00AE278, 0xBDBDF21C]"

definition halfbyte_byte :: "u8 \<Rightarrow> u32 \<Rightarrow> u32" where
  "halfbyte_byte current crc =
    (let crc = Crc32Lookup16 ! unat ((crc XOR ucast current) AND 0x0F) XOR drop_bit 4 crc;
         crc = Crc32Lookup16 ! unat ((crc XOR ucast (drop_bit 4 current)) AND 0x0F) XOR drop_bit 4 crc
     in crc)"

definition crc32_halfbyte :: "bytes \<Rightarrow> u32 \<Rightarrow> u32" where
  "crc32_halfbyte data previousCrc32 = NOT (fold halfbyte_byte data (NOT previousCrc32))"

definition Crc32Lookup :: "u32 list list" where
  "Crc32Lookup = [crc_slice_0, crc_slice_1, crc_slice_2, crc_slice_3, crc_slice_4, crc_slice_5, crc_slice_6, crc_slice_7,
    crc_slice_8, crc_slice_9, crc_slice_10, crc_slice_11, crc_slice_12, crc_slice_13, crc_slice_14, crc_slice_15]"

definition lookup :: "nat \<Rightarrow> u32 \<Rightarrow> u32" where
  "lookup k i = Crc32Lookup ! k ! unat i"

definition crc_table_byte :: "u8 \<Rightarrow> u32 \<Rightarrow> u32" where
  "crc_table_byte current crc = drop_bit 8 crc XOR lookup 0 ((crc AND 0xFF) XOR ucast current)"

definition crc32_1byte :: "bytes \<Rightarrow> u32 \<Rightarrow> u32" where
  "crc32_1byte data previousCrc32 = NOT (fold crc_table_byte data (NOT previousCrc32))"

definition tableless_byte :: "u8 \<Rightarrow> u32 \<Rightarrow> u32" where
  "tableless_byte current crc =
    (let s = (ucast crc :: u8) XOR current;
         low = (ucast s XOR push_bit 6 (ucast s)) AND 0xFF :: u32;
         a = low * (push_bit 23 1 + push_bit 14 1 + push_bit 2 1)
     in drop_bit 8 crc XOR (low * (push_bit 24 1 + push_bit 16 1 + push_bit 8 1)) XOR a XOR drop_bit 1 a XOR
        (low * (push_bit 20 1 + push_bit 12 1)) XOR push_bit 19 low XOR push_bit 17 low XOR drop_bit 2 low)"

definition crc32_1byte_tableless :: "bytes \<Rightarrow> u32 \<Rightarrow> u32" where
  "crc32_1byte_tableless data previousCrc32 = NOT (fold tableless_byte data (NOT previousCrc32))"

text \<open>\<^verbatim>\<open>(crc << k) >> 31\<close> of a signed integer.\<close>

definition spread :: "nat \<Rightarrow> u32 \<Rightarrow> u32" where
  "spread k crc = signed_drop_bit 31 (push_bit k crc)"

definition tableless2_byte :: "u8 \<Rightarrow> u32 \<Rightarrow> u32" where
  "tableless2_byte current crc =
    (let crc = crc XOR ucast current;
         c = (spread 31 crc AND (drop_bit 7 Polynomial XOR drop_bit 1 Polynomial)) XOR
             (spread 30 crc AND (drop_bit 6 Polynomial XOR Polynomial)) XOR
             (spread 29 crc AND drop_bit 5 Polynomial) XOR
             (spread 28 crc AND drop_bit 4 Polynomial) XOR
             (spread 27 crc AND drop_bit 3 Polynomial) XOR
             (spread 26 crc AND drop_bit 2 Polynomial) XOR
             (spread 25 crc AND drop_bit 1 Polynomial) XOR
             (spread 24 crc AND Polynomial)
     in drop_bit 8 crc XOR c)"

definition crc32_1byte_tableless2 :: "bytes \<Rightarrow> u32 \<Rightarrow> u32" where
  "crc32_1byte_tableless2 data previousCrc32 = NOT (fold tableless2_byte data (NOT previousCrc32))"

text \<open>\<^verbatim>\<open>while (length >= limit)\<close> with \<open>n\<close> bytes taken in each round; the rest is done byte by byte.\<close>

function crc_blocks :: "nat \<Rightarrow> nat \<Rightarrow> (bytes \<Rightarrow> u32 \<Rightarrow> u32) \<Rightarrow> bytes \<Rightarrow> u32 \<Rightarrow> u32" where
  "crc_blocks limit n step data crc =
    (if 0 < n \<and> n \<le> limit \<and> limit \<le> length data then crc_blocks limit n step (drop n data) (step (take n data) crc)
     else fold crc_table_byte data crc)"
  by auto
termination by (relation "measure (\<lambda>(limit, n, step, data, crc). length data)") auto

declare crc_blocks.simps [simp del]

definition word_at :: "bytes \<Rightarrow> nat \<Rightarrow> u32" where
  "word_at data i = ucast (data ! (4 * i)) OR push_bit 8 (ucast (data ! (4 * i + 1))) OR
     push_bit 16 (ucast (data ! (4 * i + 2))) OR push_bit 24 (ucast (data ! (4 * i + 3)))"

definition lookup4 :: "nat \<Rightarrow> u32 \<Rightarrow> u32" where
  "lookup4 k one = lookup k (drop_bit 24 one AND 0xFF) XOR lookup (k + 1) (drop_bit 16 one AND 0xFF) XOR
     lookup (k + 2) (drop_bit 8 one AND 0xFF) XOR lookup (k + 3) (one AND 0xFF)"

definition slicing_4 :: "bytes \<Rightarrow> u32 \<Rightarrow> u32" where
  "slicing_4 data crc = (let one = word_at data 0 XOR crc in lookup4 0 one)"

definition slicing_8 :: "bytes \<Rightarrow> u32 \<Rightarrow> u32" where
  "slicing_8 data crc = (let one = word_at data 0 XOR crc; two = word_at data 1 in lookup4 0 two XOR lookup4 4 one)"

definition slicing_16 :: "bytes \<Rightarrow> u32 \<Rightarrow> u32" where
  "slicing_16 data crc =
    (let one = word_at data 0 XOR crc; two = word_at data 1; three = word_at data 2; four = word_at data 3
     in lookup4 0 four XOR lookup4 4 three XOR lookup4 8 two XOR lookup4 12 one)"

definition unroll :: "nat \<Rightarrow> (bytes \<Rightarrow> u32 \<Rightarrow> u32) \<Rightarrow> bytes \<Rightarrow> u32 \<Rightarrow> u32" where
  "unroll n step data crc = fold (\<lambda>i. step (take n (drop (n * i) data))) [0..<4] crc"

definition crc32_4bytes :: "bytes \<Rightarrow> u32 \<Rightarrow> u32" where
  "crc32_4bytes data previousCrc32 = NOT (crc_blocks 4 4 slicing_4 data (NOT previousCrc32))"

definition crc32_8bytes :: "bytes \<Rightarrow> u32 \<Rightarrow> u32" where
  "crc32_8bytes data previousCrc32 = NOT (crc_blocks 8 8 slicing_8 data (NOT previousCrc32))"

definition crc32_4x8bytes :: "bytes \<Rightarrow> u32 \<Rightarrow> u32" where
  "crc32_4x8bytes data previousCrc32 = NOT (crc_blocks 32 32 (unroll 8 slicing_8) data (NOT previousCrc32))"

definition crc32_16bytes :: "bytes \<Rightarrow> u32 \<Rightarrow> u32" where
  "crc32_16bytes data previousCrc32 = NOT (crc_blocks 64 64 (unroll 16 slicing_16) data (NOT previousCrc32))"

definition crc32_16bytes_prefetch :: "bytes \<Rightarrow> u32 \<Rightarrow> nat \<Rightarrow> u32" where
  "crc32_16bytes_prefetch data previousCrc32 prefetchAhead =
     NOT (crc_blocks (64 + prefetchAhead) 64 (unroll 16 slicing_16) data (NOT previousCrc32))"

definition crc32_fast :: "bytes \<Rightarrow> u32 \<Rightarrow> u32" where
  "crc32_fast data previousCrc32 = crc32_16bytes data previousCrc32"

text \<open>\<^verbatim>\<open>for (; vec != 0; j++, vec >>= 1) if (vec & 1) sum ^= m[j]\<close>, from \<open>j\<close> on.\<close>

function matrix_times :: "u32 list \<Rightarrow> nat \<Rightarrow> u32 \<Rightarrow> u32 \<Rightarrow> u32" where
  "matrix_times m j vec acc =
    (if vec = 0 then acc
     else matrix_times m (j + 1) (drop_bit 1 vec) (if vec AND 1 \<noteq> 0 then acc XOR m ! j else acc))"
  by auto
termination
proof (relation "measure (\<lambda>(m, j, vec, acc). unat vec)")
  fix m :: "u32 list" and j and vec acc :: u32 assume "vec \<noteq> 0"
  then show "((m, j + 1, drop_bit 1 vec, if vec AND 1 \<noteq> 0 then acc XOR m ! j else acc), m, j, vec, acc)
      \<in> measure (\<lambda>(m, j, vec, acc). unat vec)"
    by (simp add: drop_bit_Suc unat_div_distrib unat_gt_0)
qed simp

declare matrix_times.simps [simp del]

definition matrix_square :: "u32 list \<Rightarrow> u32 list" where
  "matrix_square m = map (\<lambda>i. matrix_times m 0 (m ! i) 0) [0..<32]"

function combine_loop :: "nat \<Rightarrow> u32 list \<Rightarrow> u32 \<Rightarrow> u32" where
  "combine_loop lengthB b crcA =
    (if lengthB = 0 then crcA
     else (let a = matrix_square b in combine_loop (lengthB div 2) a (if odd lengthB then matrix_times a 0 crcA 0 else crcA)))"
  by auto
termination by (relation "measure (\<lambda>(n, b, c). n)") auto

declare combine_loop.simps [simp del]

definition crc32_combine :: "u32 \<Rightarrow> u32 \<Rightarrow> nat \<Rightarrow> u32" where
  "crc32_combine crcA crcB lengthB =
    (if lengthB = 0 then crcA
     else (let odd = Polynomial # map (\<lambda>i. push_bit (i - 1) 1) [1..<32]; even = matrix_square odd; odd = matrix_square even
           in combine_loop lengthB odd crcA XOR crcB))"

section \<open>The register is linear\<close>

lemma crc_bit_if: "crc_bit c = drop_bit 1 c XOR (if odd c then Polynomial else 0)"
proof -
  have "c AND 1 = (if odd c then 1 else 0)" by (simp add: and_one_eq mod_2_eq_odd)
  then show ?thesis by (simp add: crc_bit_def)
qed

definition xor_linear :: "(u32 \<Rightarrow> u32) \<Rightarrow> bool" where
  "xor_linear f \<longleftrightarrow> (\<forall>x y. f (x XOR y) = f x XOR f y)"

lemma xor_linearD: "xor_linear f \<Longrightarrow> f (x XOR y) = f x XOR f y"
  by (simp add: xor_linear_def)

lemma xor_linear_zero: "xor_linear f \<Longrightarrow> f 0 = 0"
  using xor_linearD[of f 0 0] by simp

lemma xor_linear_funpow: "xor_linear f \<Longrightarrow> xor_linear (f ^^ n)"
  by (induction n) (auto simp: xor_linear_def)

lemma odd_xor: "odd (x XOR y :: u32) \<longleftrightarrow> odd x \<noteq> odd y"
  by (simp flip: bit_0 add: bit_xor_iff)

lemma xor_cancel_left: "x XOR (x XOR y) = (y :: u32)"
  by (simp flip: xor.assoc)

lemma crc_bit_linear: "xor_linear crc_bit"
  by (auto simp: xor_linear_def crc_bit_if odd_xor xor.assoc xor.left_commute xor.commute xor_cancel_left)

lemma crc_byte_funpow: "crc_byte ^^ n = crc_bit ^^ (8 * n)"
proof -
  have e: "crc_byte = crc_bit ^^ 8" by (simp add: crc_byte_def fun_eq_iff)
  show ?thesis unfolding e by (rule funpow_mult)
qed

lemma crc_byte_linear: "xor_linear (crc_byte ^^ n)"
  unfolding crc_byte_funpow by (rule xor_linear_funpow[OF crc_bit_linear])

text \<open>Bits that have not reached the end of the register are only shifted.\<close>

lemma crc_bits_shift:
  fixes z :: u32
  assumes "\<And>i. bit z i \<Longrightarrow> i + n < 32"
  shows "(crc_bit ^^ n) (push_bit n z) = z"
  using assms
proof (induction n)
  case (Suc n)
  have "bit (drop_bit 1 (push_bit (Suc n) z)) i \<longleftrightarrow> bit (push_bit n z) i" if "i < 32" for i
  proof (cases "i = 31 \<and> n \<le> i")
    case True
    then have "\<not> bit z (i - n)" using Suc.prems[of "i - n"] by auto
    then show ?thesis using True by (simp add: bit_drop_bit_eq bit_push_bit_iff del: push_bit_Suc)
  next
    case False
    then show ?thesis using that by (auto simp: bit_drop_bit_eq bit_push_bit_iff simp del: push_bit_Suc)
  qed
  then have "drop_bit 1 (push_bit (Suc n) z) = push_bit n z" by (intro bit_eqI) auto
  then have "crc_bit (push_bit (Suc n) z) = push_bit n z" by (simp add: crc_bit_if del: push_bit_Suc)
  then show ?case using Suc.IH Suc.prems by (simp only: funpow_Suc_right comp_apply) fastforce
qed simp

lemma split_low:
  fixes c :: u32
  shows "c = (c AND mask n) XOR push_bit n (drop_bit n c)"
  by (intro bit_eqI) (auto simp: bit_simps)

lemma crc_bits_split: "(crc_bit ^^ n) c = drop_bit n c XOR (crc_bit ^^ n) (c AND mask n)"
proof -
  have "(crc_bit ^^ n) (push_bit n (drop_bit n c)) = drop_bit n c"
    by (rule crc_bits_shift) (auto simp: bit_simps dest: bit_imp_le_length)
  then show ?thesis
    using xor_linearD[OF xor_linear_funpow[OF crc_bit_linear], of n "c AND mask n" "push_bit n (drop_bit n c)"] split_low[of c n]
    by (simp add: xor.commute)
qed

lemma crc_byte_split: "crc_byte c = drop_bit 8 c XOR crc_byte (c AND 0xFF)"
  using crc_bits_split[of 8 c] by (simp add: crc_byte_def mask_eq_exp_minus_1)

section \<open>The table\<close>

text \<open>All sums of the words of a list, ordered by which of them are taken.\<close>

fun xor_span :: "u32 list \<Rightarrow> u32 list" where
  "xor_span [] = [0]"
| "xor_span (b # bs) = (let l = xor_span bs in l @ map (\<lambda>x. b XOR x) l)"

lemma length_xor_span: "length (xor_span bs) = 2 ^ length bs"
  by (induction bs) (auto simp: Let_def)

lemma xor_span_nth:
  assumes f: "xor_linear f" and n: "n \<le> 32" and i: "i < 2 ^ n"
  shows "xor_span (map (\<lambda>j. f (2 ^ j)) (rev [0..<n])) ! i = f (word_of_nat i)"
  using n i
proof (induction n arbitrary: i)
  case 0
  then show ?case using xor_linear_zero[OF f] by simp
next
  case (Suc n)
  let ?l = "xor_span (map (\<lambda>j. f (2 ^ j)) (rev [0..<n]))"
  have len: "length ?l = 2 ^ n" by (simp add: length_xor_span)
  show ?case
  proof (cases "i < 2 ^ n")
    case True
    then show ?thesis using Suc by (simp add: Let_def nth_append len)
  next
    case False
    define r where "r = i - 2 ^ n"
    have r: "r < 2 ^ n" "i = 2 ^ n + r" using False Suc.prems(2) by (auto simp: r_def)
    have "(2 ^ n :: u32) AND word_of_nat r = 0"
      using r(1) by (intro bit_eqI) (auto simp: bit_simps, metis bit_take_bit_iff less_irrefl take_bit_nat_eq_self)
    then have "(word_of_nat i :: u32) = 2 ^ n XOR word_of_nat r"
      unfolding r(2) by (simp add: disjunctive_add_eq_xor)
    moreover have "xor_span (map (\<lambda>j. f (2 ^ j)) (rev [0..<Suc n])) ! i = f (2 ^ n) XOR f (word_of_nat r)"
      using Suc.IH[of r] Suc.prems(1) r by (simp add: Let_def nth_append len)
    ultimately show ?thesis using xor_linearD[OF f] by simp
  qed
qed

lemma crc_byte_unfold: "crc_byte c = crc_bit (crc_bit (crc_bit (crc_bit (crc_bit (crc_bit (crc_bit (crc_bit c)))))))"
  by (simp add: crc_byte_def numeral_eq_Suc)

lemma crc_slice_0_span: "crc_slice_0 = xor_span [0xEDB88320, 0x76DC4190, 0x3B6E20C8, 0x1DB71064, 0x0EDB8832, 0x076DC419, 0xEE0E612C, 0x77073096]"
  by (simp add: crc_slice_0_def)

lemma crc_slice_1_span: "crc_slice_1 = xor_span [0x3B83984B, 0xF0794F05, 0x958424A2, 0x4AC21251, 0xC8D98A08, 0x646CC504, 0x32366282, 0x191B3141]"
  by (simp add: crc_slice_1_def)

lemma crc_slice_2_span: "crc_slice_2 = xor_span [0xE1351B80, 0x709A8DC0, 0x384D46E0, 0x1C26A370, 0x0E1351B8, 0x0709A8DC, 0x0384D46E, 0x01C26A37]"
  by (simp add: crc_slice_2_def)

lemma crc_slice_3_span: "crc_slice_3 = xor_span [0xED59B63B, 0x9B14583D, 0xA032AF3E, 0x5019579F, 0xC5B428EF, 0x8F629757, 0xAA09C88B, 0xB8BC6765]"
  by (simp add: crc_slice_3_def)

lemma crc_slice_4_span: "crc_slice_4 = xor_span [0xB1E6B092, 0x58F35849, 0xC1C12F04, 0x60E09782, 0x30704BC1, 0xF580A6C0, 0x7AC05360, 0x3D6029B0]"
  by (simp add: crc_slice_4_def)

lemma crc_slice_5_span: "crc_slice_5 = xor_span [0x1EB014D8, 0x0F580A6C, 0x07AC0536, 0x03D6029B, 0xEC53826D, 0x9B914216, 0x4DC8A10B, 0xCB5CD3A5]"
  by (simp add: crc_slice_5_def)

lemma crc_slice_6_span: "crc_slice_6 = xor_span [0x8816EAF2, 0x440B7579, 0xCFBD399C, 0x67DE9CCE, 0x33EF4E67, 0xF44F2413, 0x979F1129, 0xA6770BB4]"
  by (simp add: crc_slice_6_def)

lemma crc_slice_7_span: "crc_slice_7 = xor_span [0x533B85DA, 0x299DC2ED, 0xF9766256, 0x7CBB312B, 0xD3E51BB5, 0x844A0EFA, 0x4225077D, 0xCCAA009E]"
  by (simp add: crc_slice_7_def)

lemma crc_slice_8_span: "crc_slice_8 = xor_span [0x6655004F, 0xDE920307, 0x82F182A3, 0xACC04271, 0xBBD8A218, 0x5DEC510C, 0x2EF62886, 0x177B1443]"
  by (simp add: crc_slice_8_def)

lemma crc_slice_9_span: "crc_slice_9 = xor_span [0xE6050901, 0x9EBA07A0, 0x4F5D03D0, 0x27AE81E8, 0x13D740F4, 0x09EBA07A, 0x04F5D03D, 0xEFC26B3E]"
  by (simp add: crc_slice_9_def)

lemma crc_slice_10_span: "crc_slice_10 = xor_span [0x77E1359F, 0xD64819EF, 0x869C8FD7, 0xAEF6C4CB, 0xBAC3E145, 0xB0D97382, 0x586CB9C1, 0xC18EDFC0]"
  by (simp add: crc_slice_10_def)

lemma crc_slice_11_span: "crc_slice_11 = xor_span [0x60C76FE0, 0x3063B7F0, 0x1831DBF8, 0x0C18EDFC, 0x060C76FE, 0x03063B7F, 0xEC3B9E9F, 0x9BA54C6F]"
  by (simp add: crc_slice_11_def)

lemma crc_slice_12_span: "crc_slice_12 = xor_span [0xA06A2517, 0xBD8D91AB, 0xB37E4BF5, 0xB407A6DA, 0x5A03D36D, 0xC0B96A96, 0x605CB54B, 0xDD96D985]"
  by (simp add: crc_slice_12_def)

lemma crc_slice_13_span: "crc_slice_13 = xor_span [0x8373EFE2, 0x41B9F7F1, 0xCD6478D8, 0x66B23C6C, 0x33591E36, 0x19AC8F1B, 0xE16EC4AD, 0x9D0FE176]"
  by (simp add: crc_slice_13_def)

lemma crc_slice_14_span: "crc_slice_14 = xor_span [0x4E87F0BB, 0xCAFB7B7D, 0x88C53E9E, 0x44629F4F, 0xCF89CC87, 0x8A7C6563, 0xA886B191, 0xB9FBDBE8]"
  by (simp add: crc_slice_14_def)

lemma crc_slice_15_span: "crc_slice_15 = xor_span [0x5CFDEDF4, 0x2E7EF6FA, 0x173F7B7D, 0xE6273E9E, 0x73139F4F, 0xD4314C87, 0x87A02563, 0xAE689191]"
  by (simp add: crc_slice_15_def)

lemma crc_basis_0: "map crc_byte [0x80, 0x40, 0x20, 0x10, 0x8, 0x4, 0x2, 0x1] =
    [0xEDB88320, 0x76DC4190, 0x3B6E20C8, 0x1DB71064, 0x0EDB8832, 0x076DC419, 0xEE0E612C, 0x77073096]"
  by (simp add: crc_byte_unfold crc_bit_def Polynomial_def)

lemma crc_basis_1: "map crc_byte [0xEDB88320, 0x76DC4190, 0x3B6E20C8, 0x1DB71064, 0x0EDB8832, 0x076DC419, 0xEE0E612C, 0x77073096] =
    [0x3B83984B, 0xF0794F05, 0x958424A2, 0x4AC21251, 0xC8D98A08, 0x646CC504, 0x32366282, 0x191B3141]"
  by (simp add: crc_byte_unfold crc_bit_def Polynomial_def)

lemma crc_basis_2: "map crc_byte [0x3B83984B, 0xF0794F05, 0x958424A2, 0x4AC21251, 0xC8D98A08, 0x646CC504, 0x32366282, 0x191B3141] =
    [0xE1351B80, 0x709A8DC0, 0x384D46E0, 0x1C26A370, 0x0E1351B8, 0x0709A8DC, 0x0384D46E, 0x01C26A37]"
  by (simp add: crc_byte_unfold crc_bit_def Polynomial_def)

lemma crc_basis_3: "map crc_byte [0xE1351B80, 0x709A8DC0, 0x384D46E0, 0x1C26A370, 0x0E1351B8, 0x0709A8DC, 0x0384D46E, 0x01C26A37] =
    [0xED59B63B, 0x9B14583D, 0xA032AF3E, 0x5019579F, 0xC5B428EF, 0x8F629757, 0xAA09C88B, 0xB8BC6765]"
  by (simp add: crc_byte_unfold crc_bit_def Polynomial_def)

lemma crc_basis_4: "map crc_byte [0xED59B63B, 0x9B14583D, 0xA032AF3E, 0x5019579F, 0xC5B428EF, 0x8F629757, 0xAA09C88B, 0xB8BC6765] =
    [0xB1E6B092, 0x58F35849, 0xC1C12F04, 0x60E09782, 0x30704BC1, 0xF580A6C0, 0x7AC05360, 0x3D6029B0]"
  by (simp add: crc_byte_unfold crc_bit_def Polynomial_def)

lemma crc_basis_5: "map crc_byte [0xB1E6B092, 0x58F35849, 0xC1C12F04, 0x60E09782, 0x30704BC1, 0xF580A6C0, 0x7AC05360, 0x3D6029B0] =
    [0x1EB014D8, 0x0F580A6C, 0x07AC0536, 0x03D6029B, 0xEC53826D, 0x9B914216, 0x4DC8A10B, 0xCB5CD3A5]"
  by (simp add: crc_byte_unfold crc_bit_def Polynomial_def)

lemma crc_basis_6: "map crc_byte [0x1EB014D8, 0x0F580A6C, 0x07AC0536, 0x03D6029B, 0xEC53826D, 0x9B914216, 0x4DC8A10B, 0xCB5CD3A5] =
    [0x8816EAF2, 0x440B7579, 0xCFBD399C, 0x67DE9CCE, 0x33EF4E67, 0xF44F2413, 0x979F1129, 0xA6770BB4]"
  by (simp add: crc_byte_unfold crc_bit_def Polynomial_def)

lemma crc_basis_7: "map crc_byte [0x8816EAF2, 0x440B7579, 0xCFBD399C, 0x67DE9CCE, 0x33EF4E67, 0xF44F2413, 0x979F1129, 0xA6770BB4] =
    [0x533B85DA, 0x299DC2ED, 0xF9766256, 0x7CBB312B, 0xD3E51BB5, 0x844A0EFA, 0x4225077D, 0xCCAA009E]"
  by (simp add: crc_byte_unfold crc_bit_def Polynomial_def)

lemma crc_basis_8: "map crc_byte [0x533B85DA, 0x299DC2ED, 0xF9766256, 0x7CBB312B, 0xD3E51BB5, 0x844A0EFA, 0x4225077D, 0xCCAA009E] =
    [0x6655004F, 0xDE920307, 0x82F182A3, 0xACC04271, 0xBBD8A218, 0x5DEC510C, 0x2EF62886, 0x177B1443]"
  by (simp add: crc_byte_unfold crc_bit_def Polynomial_def)

lemma crc_basis_9: "map crc_byte [0x6655004F, 0xDE920307, 0x82F182A3, 0xACC04271, 0xBBD8A218, 0x5DEC510C, 0x2EF62886, 0x177B1443] =
    [0xE6050901, 0x9EBA07A0, 0x4F5D03D0, 0x27AE81E8, 0x13D740F4, 0x09EBA07A, 0x04F5D03D, 0xEFC26B3E]"
  by (simp add: crc_byte_unfold crc_bit_def Polynomial_def)

lemma crc_basis_10: "map crc_byte [0xE6050901, 0x9EBA07A0, 0x4F5D03D0, 0x27AE81E8, 0x13D740F4, 0x09EBA07A, 0x04F5D03D, 0xEFC26B3E] =
    [0x77E1359F, 0xD64819EF, 0x869C8FD7, 0xAEF6C4CB, 0xBAC3E145, 0xB0D97382, 0x586CB9C1, 0xC18EDFC0]"
  by (simp add: crc_byte_unfold crc_bit_def Polynomial_def)

lemma crc_basis_11: "map crc_byte [0x77E1359F, 0xD64819EF, 0x869C8FD7, 0xAEF6C4CB, 0xBAC3E145, 0xB0D97382, 0x586CB9C1, 0xC18EDFC0] =
    [0x60C76FE0, 0x3063B7F0, 0x1831DBF8, 0x0C18EDFC, 0x060C76FE, 0x03063B7F, 0xEC3B9E9F, 0x9BA54C6F]"
  by (simp add: crc_byte_unfold crc_bit_def Polynomial_def)

lemma crc_basis_12: "map crc_byte [0x60C76FE0, 0x3063B7F0, 0x1831DBF8, 0x0C18EDFC, 0x060C76FE, 0x03063B7F, 0xEC3B9E9F, 0x9BA54C6F] =
    [0xA06A2517, 0xBD8D91AB, 0xB37E4BF5, 0xB407A6DA, 0x5A03D36D, 0xC0B96A96, 0x605CB54B, 0xDD96D985]"
  by (simp add: crc_byte_unfold crc_bit_def Polynomial_def)

lemma crc_basis_13: "map crc_byte [0xA06A2517, 0xBD8D91AB, 0xB37E4BF5, 0xB407A6DA, 0x5A03D36D, 0xC0B96A96, 0x605CB54B, 0xDD96D985] =
    [0x8373EFE2, 0x41B9F7F1, 0xCD6478D8, 0x66B23C6C, 0x33591E36, 0x19AC8F1B, 0xE16EC4AD, 0x9D0FE176]"
  by (simp add: crc_byte_unfold crc_bit_def Polynomial_def)

lemma crc_basis_14: "map crc_byte [0x8373EFE2, 0x41B9F7F1, 0xCD6478D8, 0x66B23C6C, 0x33591E36, 0x19AC8F1B, 0xE16EC4AD, 0x9D0FE176] =
    [0x4E87F0BB, 0xCAFB7B7D, 0x88C53E9E, 0x44629F4F, 0xCF89CC87, 0x8A7C6563, 0xA886B191, 0xB9FBDBE8]"
  by (simp add: crc_byte_unfold crc_bit_def Polynomial_def)

lemma crc_basis_15: "map crc_byte [0x4E87F0BB, 0xCAFB7B7D, 0x88C53E9E, 0x44629F4F, 0xCF89CC87, 0x8A7C6563, 0xA886B191, 0xB9FBDBE8] =
    [0x5CFDEDF4, 0x2E7EF6FA, 0x173F7B7D, 0xE6273E9E, 0x73139F4F, 0xD4314C87, 0x87A02563, 0xAE689191]"
  by (simp add: crc_byte_unfold crc_bit_def Polynomial_def)

lemmas crc_slice_spans = crc_slice_0_span crc_slice_1_span crc_slice_2_span crc_slice_3_span crc_slice_4_span crc_slice_5_span crc_slice_6_span crc_slice_7_span crc_slice_8_span crc_slice_9_span crc_slice_10_span crc_slice_11_span crc_slice_12_span crc_slice_13_span crc_slice_14_span crc_slice_15_span

lemmas crc_bases = crc_basis_0 crc_basis_1 crc_basis_2 crc_basis_3 crc_basis_4 crc_basis_5 crc_basis_6 crc_basis_7 crc_basis_8 crc_basis_9 crc_basis_10 crc_basis_11 crc_basis_12 crc_basis_13 crc_basis_14 crc_basis_15

text \<open>Each slice is spanned by the basis of the one before, sent through the register.\<close>

fun slices_chain :: "u32 list \<Rightarrow> u32 list list \<Rightarrow> bool" where
  "slices_chain b [] \<longleftrightarrow> True"
| "slices_chain b (l # ls) \<longleftrightarrow> l = xor_span (map crc_byte b) \<and> slices_chain (map crc_byte b) ls"

lemma slices_chain_nth:
  "slices_chain b ls \<Longrightarrow> k < length ls \<Longrightarrow> ls ! k = xor_span (map (crc_byte ^^ Suc k) b)"
proof (induction b ls arbitrary: k rule: slices_chain.induct)
  case (2 b l ls)
  then show ?case by (cases k) (auto simp: funpow_swap1 comp_def)
qed simp

lemma Crc32Lookup_chain: "slices_chain [0x80, 0x40, 0x20, 0x10, 0x8, 0x4, 0x2, 0x1] Crc32Lookup"
  by (simp only: Crc32Lookup_def slices_chain.simps crc_bases crc_slice_spans simp_thms)

text \<open>The entries of slice \<open>k\<close> are the register after \<open>k + 1\<close> zero bytes.\<close>

lemma lookup_spec:
  assumes "k < 16" "unat i < 256"
  shows "lookup k i = (crc_byte ^^ Suc k) i"
proof -
  let ?f = "crc_byte ^^ Suc k"
  have "Crc32Lookup ! k = xor_span (map ?f [0x80, 0x40, 0x20, 0x10, 0x8, 0x4, 0x2, 0x1])"
    using assms(1) by (intro slices_chain_nth[OF Crc32Lookup_chain]) (simp add: Crc32Lookup_def)
  also have "map ?f [0x80, 0x40, 0x20, 0x10, 0x8, 0x4, 0x2, 0x1] = map (\<lambda>j. ?f (2 ^ j)) (rev [0..<8])"
    by (simp add: upt_rec numeral_eq_Suc del: funpow.simps)
  finally show ?thesis
    using xor_span_nth[OF crc_byte_linear, of 8 "unat i" "Suc k"] assms(2) by (simp add: lookup_def del: funpow.simps)
qed

section \<open>All implementations agree\<close>

abbreviation crc_feed :: "u8 \<Rightarrow> u32 \<Rightarrow> u32" where
  "crc_feed b c \<equiv> crc_byte (c XOR ucast b)"

lemma and_255_less: "unat (w AND 0xFF :: u32) < 256"
proof -
  have "w AND 0xFF = take_bit 8 w" by (simp add: take_bit_eq_mask mask_eq_exp_minus_1)
  then show ?thesis using take_bit_nat_less_exp[of 8 "unat w"] by (simp add: unsigned_take_bit_eq)
qed

lemma ucast_and_255: "(ucast (b :: u8) :: u32) AND 0xFF = ucast b"
proof -
  have "(ucast b :: u32) AND 0xFF = take_bit 8 (ucast b)" by (simp add: take_bit_eq_mask mask_eq_exp_minus_1)
  also have "\<dots> = ucast b" by (intro bit_eqI) (auto simp: bit_simps dest: bit_imp_le_length)
  finally show ?thesis .
qed

lemma ucast_u8_less: "unat (ucast (b :: u8) :: u32) < 256"
  using and_255_less[of "ucast b"] by (simp add: ucast_and_255)

lemma crc_table_byte_feed: "crc_table_byte b c = crc_feed b c"
proof -
  have a: "(c XOR ucast b) AND 0xFF = (c AND 0xFF) XOR ucast b" by (simp add: bit.conj_xor_distrib2 ucast_and_255)
  have "drop_bit 8 (ucast b :: u32) = 0" by (intro bit_eqI) (auto simp: bit_simps dest: bit_imp_le_length)
  then have d: "drop_bit 8 (c XOR ucast b) = drop_bit 8 c" by simp
  have "lookup 0 ((c AND 0xFF) XOR ucast b) = crc_byte ((c AND 0xFF) XOR ucast b)"
    using lookup_spec[of 0 "(c AND 0xFF) XOR ucast b"] and_255_less[of "c XOR ucast b"] a by simp
  then show ?thesis using crc_byte_split[of "c XOR ucast b"] a d by (simp add: crc_table_byte_def)
qed

text \<open>Four bytes at once: the register is linear, so the word may be added before the four steps.\<close>

lemma crc_byte_shift: "8 * j \<le> 24 \<Longrightarrow> (crc_byte ^^ j) (push_bit (8 * j) (ucast (b :: u8))) = ucast b"
  unfolding crc_byte_funpow by (rule crc_bits_shift) (auto simp: bit_simps dest: bit_imp_le_length)

lemma word_at_xor:
  "word_at d i = ucast (d ! (4 * i)) XOR push_bit 8 (ucast (d ! (4 * i + 1))) XOR
     push_bit 16 (ucast (d ! (4 * i + 2))) XOR push_bit 24 (ucast (d ! (4 * i + 3)))"
proof -
  have disj: "x OR y = x XOR y" if "\<And>n. bit x n \<Longrightarrow> bit y n \<Longrightarrow> False" for x y :: u32
    using that by (intro bit_eqI) (auto simp: bit_simps)
  show ?thesis unfolding word_at_def
    by (subst (1 2 3) disj) (auto simp: bit_simps dest: bit_imp_le_length)
qed

lemma feed_word:
  assumes "length d = 4"
  shows "fold crc_feed d c = (crc_byte ^^ 4) (word_at d 0 XOR c)"
proof -
  obtain b0 b1 b2 b3 where d: "d = [b0, b1, b2, b3]" using assms by (auto simp: length_Suc_conv numeral_eq_Suc)
  have lin: "crc_byte (x XOR y) = crc_byte x XOR crc_byte y" for x y using xor_linearD[OF crc_byte_linear, of 1 x y] by simp
  have sh: "ucast b1 = crc_byte (push_bit 8 (ucast b1))" "ucast b2 = crc_byte (crc_byte (push_bit 16 (ucast b2)))"
    "ucast b3 = crc_byte (crc_byte (crc_byte (push_bit 24 (ucast b3))))"
    using crc_byte_shift[of 1 b1] crc_byte_shift[of 2 b2] crc_byte_shift[of 3 b3] by (simp_all add: numeral_eq_Suc)
  have "fold crc_feed d c = crc_byte (crc_byte (crc_byte (crc_byte (c XOR ucast b0) XOR ucast b1) XOR ucast b2) XOR ucast b3)"
    by (simp add: d)
  also have "\<dots> = crc_byte (crc_byte (crc_byte (crc_byte (c XOR ucast b0 XOR push_bit 8 (ucast b1) XOR
      push_bit 16 (ucast b2) XOR push_bit 24 (ucast b3)))))"
    by (subst sh(1), subst sh(2), subst sh(3)) (simp only: lin xor.assoc)
  finally show ?thesis by (simp add: word_at_xor d numeral_eq_Suc xor.assoc xor.commute xor.left_commute)
qed

text \<open>A table lookup for each byte of a word is the word sent through the register.\<close>

lemma split_bytes:
  fixes w :: u32
  shows "w = (w AND 0xFF) XOR push_bit 8 (drop_bit 8 w AND 0xFF) XOR push_bit 16 (drop_bit 16 w AND 0xFF) XOR push_bit 24 (drop_bit 24 w AND 0xFF)"
proof -
  have m: "(0xFF :: u32) = mask 8" by (simp add: mask_eq_exp_minus_1)
  show ?thesis unfolding m by (intro bit_eqI) (auto simp: bit_simps)
qed

lemma crc_byte_shift_word: "8 * j \<le> 24 \<Longrightarrow> (crc_byte ^^ j) (push_bit (8 * j) (w AND 0xFF)) = w AND 0xFF"
proof -
  have m: "(0xFF :: u32) = mask 8" by (simp add: mask_eq_exp_minus_1)
  show "8 * j \<le> 24 \<Longrightarrow> ?thesis"
    unfolding crc_byte_funpow m by (rule crc_bits_shift) (auto simp: bit_simps)
qed

lemma lookup4_spec:
  assumes "k + 3 < 16"
  shows "lookup4 k w = (crc_byte ^^ (k + 4)) w"
proof -
  let ?f = "\<lambda>n. crc_byte ^^ n"
  have l: "lookup (k + j) (v AND 0xFF) = ?f (k + j + 1) (v AND 0xFF)" if "j < 4" for j v
    using lookup_spec[of "k + j" "v AND 0xFF"] assms that and_255_less by simp
  have s: "?f (k + 4) (push_bit (8 * j) (v AND 0xFF)) = ?f (k + 4 - j) (v AND 0xFF)" if j: "8 * j \<le> 24" for j v
  proof -
    have "?f (k + 4) = ?f (k + 4 - j) \<circ> ?f j" using j by (simp flip: funpow_add)
    then show ?thesis using crc_byte_shift_word[OF j] by simp
  qed
  have "?f (k + 4) w = ?f (k + 4) (w AND 0xFF) XOR ?f (k + 4) (push_bit 8 (drop_bit 8 w AND 0xFF)) XOR
      ?f (k + 4) (push_bit 16 (drop_bit 16 w AND 0xFF)) XOR ?f (k + 4) (push_bit 24 (drop_bit 24 w AND 0xFF))"
    by (subst split_bytes[of w]) (simp only: xor_linearD[OF crc_byte_linear])
  then show ?thesis
    using s[of 1 "drop_bit 8 w"] s[of 2 "drop_bit 16 w"] s[of 3 "drop_bit 24 w"]
      l[of 0 "drop_bit 24 w"] l[of 1 "drop_bit 16 w"] l[of 2 "drop_bit 8 w"] l[of 3 w]
    by (simp add: lookup4_def numeral_eq_Suc xor.assoc xor.commute xor.left_commute)
qed

end
