(* ===== verification/Crc32_Equiv.thy ===== *)
theory Crc32_Equiv
  imports Crc32
begin

text \<open>
  The implementations of \<^verbatim>\<open>src/ref/UDPspeeder/crc32/Crc32.cpp\<close> compute the same function as
  \<^verbatim>\<open>crc32_bitwise\<close>, and \<^verbatim>\<open>crc32_combine\<close> computes the checksum of a concatenation.
\<close>

lemma fold_table_byte: "fold crc_table_byte d c = fold crc_feed d c"
proof -
  have "crc_table_byte = crc_feed" by (intro ext) (rule crc_table_byte_feed)
  then show ?thesis by simp
qed

text \<open>A round that feeds its bytes may be used in any of the loops.\<close>

definition feeds :: "nat \<Rightarrow> (bytes \<Rightarrow> u32 \<Rightarrow> u32) \<Rightarrow> bool" where
  "feeds n step \<longleftrightarrow> (\<forall>d c. length d = n \<longrightarrow> step d c = fold crc_feed d c)"

lemma crc_blocks_feeds: "feeds n step \<Longrightarrow> crc_blocks limit n step d c = fold crc_feed d c"
proof (induction limit n step d c rule: crc_blocks.induct)
  case (1 limit n step d c)
  show ?case
  proof (cases "0 < n \<and> n \<le> limit \<and> limit \<le> length d")
    case True
    then have "step (take n d) c = fold crc_feed (take n d) c" using "1.prems" by (simp add: feeds_def)
    then show ?thesis using "1.IH"[OF True "1.prems"] True
      by (subst crc_blocks.simps) (simp flip: fold_append add: comp_def, metis append_take_drop_id comp_apply fold_append)
  next
    case False
    then show ?thesis by (subst crc_blocks.simps) (auto simp: fold_table_byte)
  qed
qed

lemma unroll_feeds:
  assumes "feeds n step"
  shows "feeds (4 * n) (unroll n step)"
  unfolding feeds_def
proof (intro allI impI)
  fix d :: bytes and c assume l: "length d = 4 * n"
  have s: "step (take n (drop (n * i) d)) c = fold crc_feed (take n (drop (n * i) d)) c" if "i < 4" for i c
  proof -
    have "n * i + n \<le> 4 * n" using that by (cases "i = 0 \<or> i = 1 \<or> i = 2 \<or> i = 3") auto
    then have "n \<le> 4 * n - n * i" by linarith
    then have "length (take n (drop (n * i) d)) = n" unfolding length_take length_drop l by (rule min_absorb2)
    then show ?thesis using assms unfolding feeds_def by blast
  qed
  have d: "d = take n (drop (n * 0) d) @ take n (drop (n * 1) d) @ take n (drop (n * 2) d) @ take n (drop (n * 3) d)"
  proof -
    have "take n (drop (n * 3) d) = drop (n * 3) d" using l by simp
    then have "take n (drop (n * 2) d) @ take n (drop (n * 3) d) = drop (n * 2) d"
      using append_take_drop_id[of n "drop (n * 2) d"] by (simp add: algebra_simps)
    then have "take n (drop (n * 1) d) @ take n (drop (n * 2) d) @ take n (drop (n * 3) d) = drop (n * 1) d"
      using append_take_drop_id[of n "drop (n * 1) d"] by (simp add: mult_2_right)
    then show ?thesis using append_take_drop_id[of n d] by simp
  qed
  have "unroll n step d c = fold crc_feed (take n (drop (n * 3) d)) (fold crc_feed (take n (drop (n * 2) d))
      (fold crc_feed (take n (drop (n * 1) d)) (fold crc_feed (take n (drop (n * 0) d)) c)))"
    unfolding unroll_def using s[of 0] s[of 1] s[of 2] s[of 3] by (simp add: upt_rec numeral_eq_Suc)
  also have "\<dots> = fold crc_feed (take n (drop (n * 0) d) @ take n (drop (n * 1) d) @ take n (drop (n * 2) d) @ take n (drop (n * 3) d)) c"
    by simp
  finally show "unroll n step d c = fold crc_feed d c" using d by metis
qed

lemma feed_bytes_linear: "fold crc_feed d (x XOR y) = fold crc_feed d x XOR (crc_byte ^^ length d) y"
proof (induction d arbitrary: x y)
  case (Cons b d)
  have "crc_feed b (x XOR y) = crc_feed b x XOR crc_byte y"
    using xor_linearD[OF crc_byte_linear, of 1 "x XOR ucast b" y] by (simp add: xor.assoc xor.commute xor.left_commute)
  then show ?case using Cons.IH by (simp add: funpow_swap1)
qed simp

lemma word_at_drop: "length d > 4 * i + 3 \<Longrightarrow> word_at (take 4 (drop (4 * i) d)) 0 = word_at d i"
  by (simp add: word_at_def)

lemma feed_words: "length d = 4 + n \<Longrightarrow> fold crc_feed d c = fold crc_feed (drop 4 d) ((crc_byte ^^ 4) (word_at d 0 XOR c))"
  using feed_word[of "take 4 d" c] fold_append[of crc_feed "take 4 d" "drop 4 d"] word_at_drop[of 0 d] by simp

lemma funpow_comp: "(crc_byte ^^ m) ((crc_byte ^^ n) x) = (crc_byte ^^ (m + n)) x"
  by (simp add: funpow_add)

lemma slicing_feeds: "feeds 4 slicing_4" "feeds 8 slicing_8" "feeds 16 slicing_16"
proof -
  note lin = xor_linearD[OF crc_byte_linear]
  show "feeds 4 slicing_4" by (simp add: feeds_def slicing_4_def lookup4_spec feed_word)
  show "feeds 8 slicing_8"
    unfolding feeds_def
  proof (intro allI impI)
    fix d :: bytes and c assume l: "length d = 8"
    have "word_at (drop 4 d) 0 = word_at d 1" using l word_at_drop[of 1 d] by simp
    then show "slicing_8 d c = fold crc_feed d c"
      using feed_words[of d 4 c] feed_word[of "drop 4 d"] l
      by (simp add: slicing_8_def lookup4_spec Let_def lin funpow_comp del: funpow.simps)
  qed
  show "feeds 16 slicing_16"
    unfolding feeds_def
  proof (intro allI impI)
    fix d :: bytes and c assume l: "length d = 16"
    have "word_at (drop 4 d) 0 = word_at d 1" "word_at (drop 8 d) 0 = word_at d 2" "word_at (drop 12 d) 0 = word_at d 3"
      using l word_at_drop[of 1 d] word_at_drop[of 2 d] word_at_drop[of 3 d]
      by (simp_all add: word_at_def)
    then show "slicing_16 d c = fold crc_feed d c"
      using feed_words[of d 12 c] feed_words[of "drop 4 d" 8] feed_words[of "drop 8 d" 4] feed_word[of "drop 12 d"] l
      by (simp add: slicing_16_def lookup4_spec Let_def lin funpow_comp xor.assoc del: funpow.simps)
  qed
qed

text \<open>Half a byte at a time.\<close>

lemma Crc32Lookup16_spec: "unat i < 16 \<Longrightarrow> Crc32Lookup16 ! unat i = (crc_bit ^^ 4) i"
proof -
  assume i: "unat i < 16"
  have "Crc32Lookup16 = xor_span [0xEDB88320, 0x76DC4190, 0x3B6E20C8, 0x1DB71064]" by (simp add: Crc32Lookup16_def)
  also have "[0xEDB88320, 0x76DC4190, 0x3B6E20C8, 0x1DB71064] = map (\<lambda>j. (crc_bit ^^ 4) (2 ^ j)) (rev [0..<4])"
    by (simp add: upt_rec numeral_eq_Suc) (simp add: crc_bit_def Polynomial_def)
  finally show ?thesis
    using xor_span_nth[OF xor_linear_funpow[OF crc_bit_linear], of 4 "unat i" 4] i by (simp del: funpow.simps)
qed

lemma and_15_less: "unat (w AND 0xF :: u32) < 16"
proof -
  have "w AND 0xF = take_bit 4 w" by (simp add: take_bit_eq_mask mask_eq_exp_minus_1)
  then show ?thesis using take_bit_nat_less_exp[of 4 "unat w"] by (simp add: unsigned_take_bit_eq)
qed

lemma nibble_step: "Crc32Lookup16 ! unat ((c XOR x) AND 0xF) XOR drop_bit 4 c = (crc_bit ^^ 4) (c XOR (x AND 0xF))"
proof -
  have m: "(0xF :: u32) = mask 4" by (simp add: mask_eq_exp_minus_1)
  have a: "(c XOR (x AND 0xF)) AND mask 4 = (c XOR x) AND 0xF"
    unfolding m by (intro bit_eqI) (auto simp: bit_simps)
  have "drop_bit 4 (x AND 0xF) = 0" unfolding m by (intro bit_eqI) (auto simp: bit_simps)
  then have d: "drop_bit 4 (c XOR (x AND 0xF)) = drop_bit 4 c" by simp
  show ?thesis
    using crc_bits_split[of 4 "c XOR (x AND 0xF)"] Crc32Lookup16_spec[OF and_15_less, of "c XOR x"]
    unfolding a d by (simp add: xor.commute del: funpow.simps)
qed

lemma halfbyte_feed: "halfbyte_byte b c = crc_feed b c"
proof -
  have m: "(0xF :: u32) = mask 4" by (simp add: mask_eq_exp_minus_1)
  let ?hi = "ucast (drop_bit 4 b) :: u32" and ?lo = "(ucast b :: u32) AND 0xF"
  have hi: "?hi AND 0xF = ?hi" unfolding m by (intro bit_eqI) (auto simp: bit_simps dest: bit_imp_le_length)
  have sh: "(crc_bit ^^ 4) (push_bit 4 ?hi) = ?hi" by (rule crc_bits_shift) (auto simp: bit_simps dest: bit_imp_le_length)
  have b: "ucast b = ?lo XOR push_bit 4 ?hi" unfolding m by (intro bit_eqI) (auto simp: bit_simps dest: bit_imp_le_length)
  have "(crc_bit ^^ 4) ((crc_bit ^^ 4) (c XOR ?lo) XOR ?hi) = (crc_bit ^^ 4) ((crc_bit ^^ 4) (c XOR ?lo XOR push_bit 4 ?hi))"
    using xor_linearD[OF xor_linear_funpow[OF crc_bit_linear], of 4 "c XOR ?lo" "push_bit 4 ?hi"] sh
    by (simp add: xor.assoc del: funpow.simps)
  also have "\<dots> = crc_feed b c"
    using funpow_add[of 4 4 crc_bit] by (simp add: crc_byte_def b [symmetric] del: funpow.simps)
  finally show ?thesis by (simp add: halfbyte_byte_def Let_def nibble_step hi del: funpow.simps)
qed

text \<open>Without tables: bit \<open>i\<close> of the register contributes a constant.\<close>

lemma spread_mask: "i < 32 \<Longrightarrow> spread (31 - i) c AND p = (if bit c i then p else 0)"
proof -
  assume i: "i < 32"
  have "spread (31 - i) c = (if bit c i then -1 else 0)"
    unfolding spread_def using i by (intro bit_eqI) (auto simp: bit_simps not_less_eq_eq)
  then show ?thesis by simp
qed

lemma take_bit_Suc_xor: "take_bit (Suc n) c = take_bit n c XOR (if bit c n then 2 ^ n else 0 :: u32)"
  by (intro bit_eqI) (auto simp: bit_simps less_Suc_eq)

lemma crc_byte_bits:
  "crc_byte (c AND 0xFF) = (if bit c 0 then crc_byte 1 else 0) XOR (if bit c 1 then crc_byte 2 else 0) XOR
    (if bit c 2 then crc_byte 4 else 0) XOR (if bit c 3 then crc_byte 8 else 0) XOR (if bit c 4 then crc_byte 16 else 0) XOR
    (if bit c 5 then crc_byte 32 else 0) XOR (if bit c 6 then crc_byte 64 else 0) XOR (if bit c 7 then crc_byte 128 else 0)"
proof -
  have lin: "crc_byte (x XOR y) = crc_byte x XOR crc_byte y" for x y using xor_linearD[OF crc_byte_linear, of 1 x y] by simp
  have z: "crc_byte 0 = 0" using xor_linear_zero[OF crc_byte_linear, of 1] by simp
  have i: "crc_byte (if b then x else 0) = (if b then crc_byte x else 0)" for b x using z by simp
  have "c AND 0xFF = take_bit 8 c" by (simp add: take_bit_eq_mask mask_eq_exp_minus_1)
  also have "\<dots> = 0 XOR (if bit c 0 then 1 else 0) XOR (if bit c 1 then 2 else 0) XOR (if bit c 2 then 4 else 0) XOR
    (if bit c 3 then 8 else 0) XOR (if bit c 4 then 16 else 0) XOR (if bit c 5 then 32 else 0) XOR
    (if bit c 6 then 64 else 0) XOR (if bit c 7 then 128 else 0)"
    using take_bit_Suc_xor[of 0 c] take_bit_Suc_xor[of 1 c] take_bit_Suc_xor[of 2 c] take_bit_Suc_xor[of 3 c]
      take_bit_Suc_xor[of 4 c] take_bit_Suc_xor[of 5 c] take_bit_Suc_xor[of 6 c] take_bit_Suc_xor[of 7 c]
    by (simp only: xor.assoc numeral_nat One_nat_def take_bit_0) (simp only: power.simps power_one_right mult_2 mult.right_neutral arith_simps)
  finally show ?thesis by (simp only: lin i z xor.left_neutral)
qed

lemma tableless2_feed: "tableless2_byte b c = crc_feed b c"
proof -
  let ?c = "c XOR ucast b"
  have p: "crc_byte 1 = drop_bit 7 Polynomial XOR drop_bit 1 Polynomial" "crc_byte 2 = drop_bit 6 Polynomial XOR Polynomial"
    "crc_byte 4 = drop_bit 5 Polynomial" "crc_byte 8 = drop_bit 4 Polynomial" "crc_byte 16 = drop_bit 3 Polynomial"
    "crc_byte 32 = drop_bit 2 Polynomial" "crc_byte 64 = drop_bit 1 Polynomial" "crc_byte 128 = Polynomial"
    by (simp_all add: crc_byte_unfold crc_bit_def Polynomial_def)
  have m: "spread 31 ?c AND q = (if bit ?c 0 then q else 0)" "spread 30 ?c AND q = (if bit ?c 1 then q else 0)"
    "spread 29 ?c AND q = (if bit ?c 2 then q else 0)" "spread 28 ?c AND q = (if bit ?c 3 then q else 0)"
    "spread 27 ?c AND q = (if bit ?c 4 then q else 0)" "spread 26 ?c AND q = (if bit ?c 5 then q else 0)"
    "spread 25 ?c AND q = (if bit ?c 6 then q else 0)" "spread 24 ?c AND q = (if bit ?c 7 then q else 0)" for q
    using spread_mask[of 0 ?c q] spread_mask[of 1 ?c q] spread_mask[of 2 ?c q] spread_mask[of 3 ?c q]
      spread_mask[of 4 ?c q] spread_mask[of 5 ?c q] spread_mask[of 6 ?c q] spread_mask[of 7 ?c q] by simp_all
  show ?thesis
    unfolding tableless2_byte_def Let_def m crc_byte_split[of ?c] crc_byte_bits[of ?c] p by (rule refl)
qed

text \<open>The multiplications of \<^verbatim>\<open>crc32_1byte_tableless\<close>, checked for every byte.\<close>

definition tableless_low :: "u32 \<Rightarrow> u32" where
  "tableless_low s =
    (let low = (s XOR push_bit 6 s) AND 0xFF; a = low * (push_bit 23 1 + push_bit 14 1 + push_bit 2 1)
     in (low * (push_bit 24 1 + push_bit 16 1 + push_bit 8 1)) XOR a XOR drop_bit 1 a XOR
        (low * (push_bit 20 1 + push_bit 12 1)) XOR push_bit 19 low XOR push_bit 17 low XOR drop_bit 2 low)"

lemma tableless_table: "map tableless_low (map word_of_nat [0..<256]) = crc_slice_0"
  by (simp add: upt_rec tableless_low_def crc_slice_0_def)

lemma tableless_feed: "tableless_byte b c = crc_feed b c"
proof -
  let ?c = "c XOR ucast b"
  have s: "(ucast ((ucast c :: u8) XOR b) :: u32) = ?c AND 0xFF"
  proof -
    have m: "(0xFF :: u32) = mask 8" by (simp add: mask_eq_exp_minus_1)
    show ?thesis unfolding m by (intro bit_eqI) (auto simp: bit_simps dest: bit_imp_le_length)
  qed
  have i: "unat (?c AND 0xFF) < 256" by (rule and_255_less)
  have "map tableless_low (map word_of_nat [0..<256]) ! unat (?c AND 0xFF) = tableless_low (?c AND 0xFF)" using i by simp
  then have "tableless_low (?c AND 0xFF) = lookup 0 (?c AND 0xFF)"
    unfolding tableless_table by (simp add: lookup_def Crc32Lookup_def)
  also have "\<dots> = crc_byte (?c AND 0xFF)" using lookup_spec[of 0 "?c AND 0xFF"] i by simp
  finally have t: "tableless_low (?c AND 0xFF) = crc_byte (?c AND 0xFF)" .
  have "drop_bit 8 (ucast b :: u32) = 0" by (intro bit_eqI) (auto simp: bit_simps dest: bit_imp_le_length)
  then have d: "drop_bit 8 ?c = drop_bit 8 c" by simp
  have "tableless_byte b c = drop_bit 8 c XOR tableless_low (?c AND 0xFF)"
    unfolding tableless_byte_def tableless_low_def Let_def s by (rule refl)
  then show ?thesis unfolding t d [symmetric] by (simp only: crc_byte_split[of ?c] xor.commute)
qed

lemma crc_feed_equivs: "tableless_byte = crc_feed" "tableless2_byte = crc_feed" "halfbyte_byte = crc_feed"
  by (intro ext, simp only: tableless_feed tableless2_feed halfbyte_feed)+

text \<open>All ten routines compute the checksum of \<^verbatim>\<open>crc32_bitwise\<close>.\<close>

lemma crc32_implementations:
  "crc32_halfbyte d p = crc32_bitwise d p" "crc32_1byte d p = crc32_bitwise d p"
  "crc32_1byte_tableless d p = crc32_bitwise d p" "crc32_1byte_tableless2 d p = crc32_bitwise d p"
  "crc32_4bytes d p = crc32_bitwise d p" "crc32_8bytes d p = crc32_bitwise d p" "crc32_4x8bytes d p = crc32_bitwise d p"
  "crc32_16bytes d p = crc32_bitwise d p" "crc32_16bytes_prefetch d p n = crc32_bitwise d p" "crc32_fast d p = crc32_bitwise d p"
proof -
  have "feeds 32 (unroll 8 slicing_8)" "feeds 64 (unroll 16 slicing_16)"
    using unroll_feeds[OF slicing_feeds(2)] unroll_feeds[OF slicing_feeds(3)] by simp_all
  note b = crc_blocks_feeds[OF slicing_feeds(1)] crc_blocks_feeds[OF slicing_feeds(2)] this[THEN crc_blocks_feeds]
  show "crc32_halfbyte d p = crc32_bitwise d p" "crc32_1byte d p = crc32_bitwise d p"
    "crc32_1byte_tableless d p = crc32_bitwise d p" "crc32_1byte_tableless2 d p = crc32_bitwise d p"
    "crc32_4bytes d p = crc32_bitwise d p" "crc32_8bytes d p = crc32_bitwise d p" "crc32_4x8bytes d p = crc32_bitwise d p"
    "crc32_16bytes d p = crc32_bitwise d p" "crc32_16bytes_prefetch d p n = crc32_bitwise d p" "crc32_fast d p = crc32_bitwise d p"
    unfolding crc32_halfbyte_def crc32_1byte_def crc32_1byte_tableless_def crc32_1byte_tableless2_def crc32_4bytes_def
      crc32_8bytes_def crc32_4x8bytes_def crc32_16bytes_def crc32_16bytes_prefetch_def crc32_fast_def crc32_bitwise_def
      crc_feed_equivs fold_table_byte b by (rule refl)+
qed

section \<open>Combining two checksums\<close>

text \<open>A matrix over GF(2) is the list of the images of the powers of two.\<close>

definition matrix_of :: "(u32 \<Rightarrow> u32) \<Rightarrow> u32 list \<Rightarrow> bool" where
  "matrix_of f m \<longleftrightarrow> length m = 32 \<and> (\<forall>i<32. m ! i = f (2 ^ i))"

lemma matrix_times_spec:
  assumes f: "xor_linear f"
  shows "matrix_of f m \<Longrightarrow> \<forall>n. bit vec n \<longrightarrow> n + j < 32 \<Longrightarrow> matrix_times m j vec acc = acc XOR f (push_bit j vec)"
proof (induction m j vec acc rule: matrix_times.induct)
  case (1 m j vec acc)
  show ?case
  proof (cases "vec = 0")
    case True
    then show ?thesis using xor_linear_zero[OF f] by (subst matrix_times.simps) simp
  next
    case False
    let ?acc = "if vec AND 1 \<noteq> 0 then acc XOR m ! j else acc"
    have bits: "\<forall>n. bit (drop_bit 1 vec) n \<longrightarrow> n + (j + 1) < 32" using "1.prems"(2) by (auto simp: bit_drop_bit_eq)
    have odd: "vec AND 1 \<noteq> 0 \<longleftrightarrow> bit vec 0" by (simp add: and_one_eq mod_2_eq_odd bit_0)
    have "push_bit j vec = push_bit (j + 1) (drop_bit 1 vec) XOR (if bit vec 0 then 2 ^ j else 0)"
    proof (rule bit_eqI)
      fix n assume "possible_bit TYPE(u32) n"
      then show "bit (push_bit j vec) n = bit (push_bit (j + 1) (drop_bit 1 vec) XOR (if bit vec 0 then 2 ^ j else 0)) n"
        by (cases n j rule: linorder_cases) (auto simp: bit_simps Suc_diff_Suc simp del: push_bit_Suc)
    qed
    then have "f (push_bit j vec) = f (push_bit (j + 1) (drop_bit 1 vec)) XOR (if bit vec 0 then f (2 ^ j) else 0)"
      using xor_linearD[OF f] xor_linear_zero[OF f] by simp
    moreover have "m ! j = f (2 ^ j)" if "bit vec 0" using that "1.prems" by (auto simp: matrix_of_def)
    moreover have "matrix_times m j vec acc = ?acc XOR f (push_bit (j + 1) (drop_bit 1 vec))"
      using "1.IH"[OF False "1.prems"(1) bits] False by (subst matrix_times.simps) simp
    ultimately show ?thesis using odd by (simp add: xor.assoc xor.commute)
  qed
qed

lemma matrix_times_vec: "xor_linear f \<Longrightarrow> matrix_of f m \<Longrightarrow> matrix_times m 0 vec 0 = f vec"
proof -
  have "\<forall>n. bit vec n \<longrightarrow> n + 0 < 32" by (auto dest: bit_imp_le_length)
  then show "xor_linear f \<Longrightarrow> matrix_of f m \<Longrightarrow> ?thesis" using matrix_times_spec[of f m vec 0 0] by simp
qed

lemma matrix_square_spec: "xor_linear f \<Longrightarrow> matrix_of f m \<Longrightarrow> matrix_of (f \<circ> f) (matrix_square m)"
  using matrix_times_vec by (auto simp: matrix_square_def matrix_of_def)

lemma combine_loop_spec: "matrix_of (crc_bit ^^ k) b \<Longrightarrow> combine_loop n b c = (crc_bit ^^ (2 * k * n)) c"
proof (induction n b c arbitrary: k rule: combine_loop.induct)
  case (1 n b c)
  show ?case
  proof (cases "n = 0")
    case False
    let ?a = "matrix_square b" and ?f = "crc_bit ^^ (2 * k)"
    have lin: "xor_linear (crc_bit ^^ j)" for j by (rule xor_linear_funpow[OF crc_bit_linear])
    have a: "matrix_of ?f ?a"
      using matrix_square_spec[OF lin "1.prems"] by (simp only: mult_2 funpow_add)
    have "combine_loop n b c = combine_loop (n div 2) ?a (if odd n then ?f c else c)"
      using False matrix_times_vec[OF lin a] by (subst combine_loop.simps) (simp add: Let_def)
    also have "\<dots> = (crc_bit ^^ (2 * (2 * k) * (n div 2))) (if odd n then ?f c else c)"
      using "1.IH"[OF False refl a] matrix_times_vec[OF lin a] by (cases "odd n") simp_all
    also have "\<dots> = (crc_bit ^^ (2 * (2 * k) * (n div 2) + (if odd n then 2 * k else 0))) c"
      by (simp add: funpow_add)
    also have "2 * (2 * k) * (n div 2) + (if odd n then 2 * k else 0) = 2 * k * n"
      by (cases "odd n") (auto elim!: oddE evenE simp: algebra_simps)
    finally show ?thesis .
  qed (subst combine_loop.simps, simp)
qed

text \<open>C26. \<^verbatim>\<open>crc32_combine\<close> gives the checksum of two byte strings one after the other from the checksums of the
  two and the length of the second.\<close>

theorem crc32_combine_correct:
  "crc32_combine (crc32_bitwise a p) (crc32_bitwise b 0) (length b) = crc32_bitwise (a @ b) p"
proof (cases "b = []")
  case False
  let ?m = "Polynomial # map (\<lambda>i. push_bit (i - 1) 1) [1..<32]"
  have lin: "xor_linear (crc_bit ^^ j)" for j by (rule xor_linear_funpow[OF crc_bit_linear])
  have "crc_bit (2 ^ i) = ?m ! i" if "i < 32" for i
  proof (cases i)
    case 0
    then show ?thesis by (simp add: crc_bit_if)
  next
    case (Suc j)
    have "drop_bit 1 (2 ^ Suc j :: u32) = 2 ^ j" using that Suc by (intro bit_eqI) (auto simp: bit_simps)
    then show ?thesis using that Suc by (simp add: crc_bit_if push_bit_eq_mult)
  qed
  then have "matrix_of (crc_bit ^^ 1) ?m" by (auto simp: matrix_of_def)
  from matrix_square_spec[OF lin this] have "matrix_of (crc_bit ^^ 2) (matrix_square ?m)" by (simp add: numeral_2_eq_2)
  from matrix_square_spec[OF lin this] have m4: "matrix_of (crc_bit ^^ 4) (matrix_square (matrix_square ?m))"
    by (simp flip: funpow_add)
  let ?A = "fold crc_feed a (NOT p)"
  have "combine_loop (length b) (matrix_square (matrix_square ?m)) c = (crc_byte ^^ length b) c" for c
    using combine_loop_spec[OF m4, of "length b" c] by (simp add: crc_byte_funpow)
  then have "crc32_combine (NOT ?A) (crc32_bitwise b 0) (length b) = (crc_byte ^^ length b) (NOT ?A) XOR NOT (fold crc_feed b (-1))"
    using False by (simp add: crc32_combine_def Let_def crc32_bitwise_def)
  also have "\<dots> = NOT (fold crc_feed b (-1) XOR (crc_byte ^^ length b) (NOT ?A))" by (simp add: xor.commute)
  also have "\<dots> = NOT (fold crc_feed b (-1 XOR NOT ?A))" by (simp only: feed_bytes_linear)
  finally show ?thesis by (simp add: crc32_bitwise_def)
qed (simp add: crc32_combine_def)

end
