(* ===== verification/Packet.thy ===== *)
theory Packet
  imports Bytes Blob Crc32_Equiv
begin

text \<open>
  What \<^verbatim>\<open>src/ref/UDPspeeder/packet.cpp\<close> does to a packet on its way to and from the wire: a checksum is
  appended, the packet is blurred with random bytes that are appended too, and the whole is combined with a
  key; and the header with the conversation number. A buffer of the code with its length is the list of its
  bytes. \<open>None\<close> is a failed assertion for the senders' side and the return value -1 for the receivers' side.
\<close>

record cook_config =
  ck_disable_checksum :: bool
  ck_disable_obscure :: bool
  ck_disable_xor :: bool
  ck_key :: bytes

text \<open>The key is a C string: the bytes in front of the terminating zero. At the zero the index restarts.\<close>

fun encrypt_loop :: "bytes \<Rightarrow> nat \<Rightarrow> bytes \<Rightarrow> bytes" where
  "encrypt_loop key j [] = []"
| "encrypt_loop key j (b # bs) = (let j = (if j = length key then 0 else j) in (b XOR key ! j) # encrypt_loop key (j + 1) bs)"

definition encrypt_0 :: "bytes \<Rightarrow> bytes \<Rightarrow> bytes" where
  "encrypt_0 key input = (if key = [] then input else encrypt_loop key 0 input)"

definition decrypt_0 :: "bytes \<Rightarrow> bytes \<Rightarrow> bytes" where
  "decrypt_0 key input = (if key = [] then input else encrypt_loop key 0 input)"

text \<open>
  The random bytes \<open>iv\<close> and their number stand behind the data, and the loop reads from there. What lies in
  memory behind the packet is \<open>stale\<close>: the index is set back when it reaches the number of random bytes, so
  with none of them the loop runs over the end of the packet.
\<close>

definition behind :: "bytes \<Rightarrow> (nat \<Rightarrow> u8) \<Rightarrow> nat \<Rightarrow> u8" where
  "behind tail stale j = (if j < length tail then tail ! j else stale (j - length tail))"

fun obscure_loop :: "nat \<Rightarrow> (nat \<Rightarrow> u8) \<Rightarrow> nat \<Rightarrow> bytes \<Rightarrow> bytes" where
  "obscure_loop iv_len rd j [] = []"
| "obscure_loop iv_len rd j (b # bs) = (let j = (if j = iv_len then 0 else j) in (b XOR rd j) # obscure_loop iv_len rd (j + 1) bs)"

definition do_obscure :: "(nat \<Rightarrow> u8) \<Rightarrow> bytes \<Rightarrow> bytes \<Rightarrow> bytes option" where
  "do_obscure stale iv data = do {
     check (length data < buf_len);
     let tail = iv @ [word_of_nat (length iv)];
     Some (obscure_loop (length iv) (behind tail stale) 0 data @ tail)
   }"

definition de_obscure :: "(nat \<Rightarrow> u8) \<Rightarrow> bytes \<Rightarrow> bytes option" where
  "de_obscure stale data =
    (if length data < 1 then None
     else (let iv_len = unat (last data) in
       if length data < 1 + iv_len then None
       else (let len = length data - 1 - iv_len
             in Some (obscure_loop iv_len (behind (drop len data) stale) 0 (take len data)))))"

definition put_crc32 :: "cook_config \<Rightarrow> bytes \<Rightarrow> bytes" where
  "put_crc32 cfg s = (if ck_disable_checksum cfg then s else s @ write_u32 (crc32_fast s 0))"

definition rm_crc32 :: "cook_config \<Rightarrow> bytes \<Rightarrow> bytes option" where
  "rm_crc32 cfg s =
    (if ck_disable_checksum cfg then Some s
     else if length s < 4 then None
     else (let len = length s - 4; crc32_in = read_u32 (drop len s); crc32 = crc32_fast (take len s) 0
           in if crc32 \<noteq> crc32_in then None else Some (take len s)))"

definition do_cook :: "cook_config \<Rightarrow> (nat \<Rightarrow> u8) \<Rightarrow> bytes \<Rightarrow> bytes \<Rightarrow> bytes option" where
  "do_cook cfg stale iv data = do {
     let data = put_crc32 cfg data;
     data \<leftarrow> (if \<not> ck_disable_obscure cfg then do_obscure stale iv data else Some data);
     Some (if \<not> ck_disable_xor cfg then encrypt_0 (ck_key cfg) data else data)
   }"

definition de_cook :: "cook_config \<Rightarrow> (nat \<Rightarrow> u8) \<Rightarrow> bytes \<Rightarrow> bytes option" where
  "de_cook cfg stale s = do {
     let s = (if \<not> ck_disable_xor cfg then decrypt_0 (ck_key cfg) s else s);
     s \<leftarrow> (if \<not> ck_disable_obscure cfg then de_obscure stale s else Some s);
     rm_crc32 cfg s
   }"

text \<open>
  The conversation number in front of the data, with a checksum behind (\<^verbatim>\<open>put_conv0\<close>) and without. Reading
  fewer than four bytes is outside of what the packet holds; the length is checked after the read only.
\<close>

definition put_conv0 :: "u32 \<Rightarrow> bytes \<Rightarrow> bytes" where
  "put_conv0 conv input = (let output = write_u32 conv @ input in output @ write_u32 (crc32_fast output 0))"

definition get_conv0 :: "bytes \<Rightarrow> (u32 \<times> bytes) option" where
  "get_conv0 input =
    (if length input < 8 then None
     else (let crc32 = read_u32 (drop (length input - 4) input)
           in if crc32 \<noteq> crc32_fast (take (length input - 4) input) 0 then None
              else Some (read_u32 input, take (length input - 8) (drop 4 input))))"

definition put_conv :: "u32 \<Rightarrow> bytes \<Rightarrow> bytes" where
  "put_conv conv input = write_u32 conv @ input"

definition get_conv :: "bytes \<Rightarrow> (u32 \<times> bytes) option" where
  "get_conv input = (if length input < 4 then None else Some (read_u32 input, drop 4 input))"

section \<open>Round trips\<close>

lemma length_encrypt_loop [simp, len_simps]: "length (encrypt_loop key j bs) = length bs"
  by (induction key j bs rule: encrypt_loop.induct) (auto simp: Let_def)

lemma encrypt_loop_involution: "encrypt_loop key j (encrypt_loop key j bs) = bs"
  by (induction key j bs rule: encrypt_loop.induct) (auto simp: Let_def)

lemma decrypt_encrypt_0 [simp]: "decrypt_0 key (encrypt_0 key s) = s"
  by (simp add: encrypt_0_def decrypt_0_def encrypt_loop_involution)

lemma encrypt_decrypt_0: "encrypt_0 key (decrypt_0 key s) = s"
  by (simp add: encrypt_0_def decrypt_0_def encrypt_loop_involution)

lemma length_obscure_loop [simp, len_simps]: "length (obscure_loop n rd j bs) = length bs"
  by (induction n rd j bs rule: obscure_loop.induct) (auto simp: Let_def)

lemma obscure_loop_involution: "obscure_loop n rd j (obscure_loop n rd j bs) = bs"
  by (induction n rd j bs rule: obscure_loop.induct) (auto simp: Let_def)

lemma obscure_loop_cong:
  "0 < n \<Longrightarrow> j \<le> n \<Longrightarrow> (\<And>i. i < n \<Longrightarrow> rd i = rd' i) \<Longrightarrow> obscure_loop n rd j bs = obscure_loop n rd' j bs"
  by (induction n rd j bs rule: obscure_loop.induct) (auto simp: Let_def)

lemma de_obscure_do_obscure:
  assumes "do_obscure stale iv data = Some out" "1 \<le> length iv" "length iv < 256"
  shows "de_obscure stale' out = Some data"
proof -
  let ?tail = "iv @ [word_of_nat (length iv)]" and ?n = "length iv"
  have out: "out = obscure_loop ?n (behind ?tail stale) 0 data @ ?tail"
    using assms(1) by (auto simp: do_obscure_def Let_def bind_eq_Some_conv)
  have "unat (word_of_nat ?n :: u8) = ?n" using assms(3) by (simp add: unat_of_nat)
  moreover have "obscure_loop ?n (behind ?tail stale') 0 (obscure_loop ?n (behind ?tail stale) 0 data) =
      obscure_loop ?n (behind ?tail stale) 0 (obscure_loop ?n (behind ?tail stale) 0 data)"
    using assms(2) by (intro obscure_loop_cong) (auto simp: behind_def)
  ultimately show ?thesis by (simp add: out de_obscure_def Let_def obscure_loop_involution)
qed

text \<open>A packet whose last byte, the length of the random part, is zero makes \<^verbatim>\<open>de_obscure\<close> read behind the packet:
  what is decoded depends on the memory there.\<close>

lemma de_obscure_overrun:
  "de_obscure stale [a, b, 0] = Some [a, b XOR stale 0]"
  by (simp add: de_obscure_def behind_def Let_def)

lemma rm_put_crc32: "rm_crc32 cfg (put_crc32 cfg s) = Some s"
  using read_u32_write_u32[of "crc32_fast s 0" "[]"] by (simp add: rm_crc32_def put_crc32_def Let_def)

lemma write_read_u32: "length s = 4 \<Longrightarrow> write_u32 (read_u32 s) = s"
  using write_u32_read_u32 by (auto simp: length_Suc_conv numeral_eq_Suc)

lemma rm_crc32_put: "rm_crc32 cfg s = Some t \<Longrightarrow> put_crc32 cfg t = s"
proof -
  assume rm: "rm_crc32 cfg s = Some t"
  show ?thesis
  proof (cases "ck_disable_checksum cfg")
    case False
    then have l: "4 \<le> length s" "t = take (length s - 4) s" "crc32_fast t 0 = read_u32 (drop (length s - 4) s)"
      using rm by (auto simp: rm_crc32_def Let_def split: if_splits)
    have "write_u32 (read_u32 (drop (length s - 4) s)) = drop (length s - 4) s" using l(1) by (intro write_read_u32) simp
    then show ?thesis using False l by (simp add: put_crc32_def)
  qed (use rm in \<open>simp add: rm_crc32_def put_crc32_def\<close>)
qed

lemma de_cook_do_cook:
  assumes "do_cook cfg stale iv data = Some out" "1 \<le> length iv" "length iv < 256"
  shows "de_cook cfg stale' out = Some data"
proof (cases "ck_disable_obscure cfg")
  case True
  then show ?thesis using assms(1) by (auto simp: do_cook_def de_cook_def Let_def rm_put_crc32)
next
  case False
  then obtain o1 where "do_obscure stale iv (put_crc32 cfg data) = Some o1"
      "out = (if \<not> ck_disable_xor cfg then encrypt_0 (ck_key cfg) o1 else o1)"
    using assms(1) by (auto simp: do_cook_def Let_def bind_eq_Some_conv)
  then show ?thesis using False de_obscure_do_obscure[OF _ assms(2,3)]
    by (auto simp: de_cook_def Let_def rm_put_crc32)
qed

lemma do_cook_total: "length data + 4 < buf_len \<Longrightarrow> \<exists>out. do_cook cfg stale iv data = Some out"
  by (simp add: do_cook_def do_obscure_def put_crc32_def Let_def)

lemma get_put_conv0: "get_conv0 (put_conv0 conv input) = Some (conv, input)"
  using read_u32_write_u32[of "crc32_fast (write_u32 conv @ input) 0" "[]"] by (simp add: get_conv0_def put_conv0_def Let_def)

lemma get_put_conv: "get_conv (put_conv conv input) = Some (conv, input)"
  by (simp add: get_conv_def put_conv_def)

lemma put_get_conv: "get_conv s = Some (conv, t) \<Longrightarrow> put_conv conv t = s"
proof -
  assume g: "get_conv s = Some (conv, t)"
  then have l: "4 \<le> length s" "conv = read_u32 s" "t = drop 4 s" by (auto simp: get_conv_def split: if_splits)
  have "read_u32 s = read_u32 (take 4 s)" using l(1) by (simp add: read_u32_def)
  then show ?thesis using l write_read_u32[of "take 4 s"] by (simp add: put_conv_def)
qed

section \<open>What the checksum detects\<close>

lemma crc_bit_zero: "crc_bit x = 0 \<Longrightarrow> x = 0"
proof -
  assume z: "crc_bit x = 0"
  have even: "even x"
  proof (rule ccontr)
    assume "odd x"
    then have "drop_bit 1 x = Polynomial" using z by (simp add: crc_bit_if xor_swap_cancel)
    then have "bit (drop_bit 1 x) 31" by (simp add: Polynomial_def)
    then show False using bit_imp_le_length[of x 32] by (simp add: bit_drop_bit_eq)
  qed
  then have "drop_bit 1 x = 0" using z by (simp add: crc_bit_if)
  moreover have "take_bit 1 x = 0" using even by (simp add: take_bit_Suc even_iff_mod_2_eq_zero)
  ultimately show ?thesis using bits_ident[of 1 x] by simp
qed

lemma crc_byte_inject: "(crc_byte ^^ n) x = (crc_byte ^^ n) y \<longleftrightarrow> x = y"
proof -
  have "(crc_bit ^^ m) z = 0 \<Longrightarrow> z = 0" for m z by (induction m) (auto dest: crc_bit_zero)
  then have "(crc_byte ^^ n) (x XOR y) = 0 \<Longrightarrow> x XOR y = 0" unfolding crc_byte_funpow .
  then show ?thesis using xor_linearD[OF crc_byte_linear, of n x y] by (auto simp: xor_swap_cancel)
qed

lemma feed_inject: "fold crc_feed d x = fold crc_feed d y \<longleftrightarrow> x = y"
proof -
  have "crc_byte x = crc_byte y \<longleftrightarrow> x = y" for x y using crc_byte_inject[of 1] by simp
  then show ?thesis by (induction d arbitrary: x y) (auto simp: xor_swap_cancel)
qed

lemma word_at_byte:
  "(ucast (word_at [a, b, c, d] 0) :: u8) = a" "(ucast (drop_bit 8 (word_at [a, b, c, d] 0)) :: u8) = b"
  "(ucast (drop_bit 16 (word_at [a, b, c, d] 0)) :: u8) = c" "(ucast (drop_bit 24 (word_at [a, b, c, d] 0)) :: u8) = d"
  by (auto intro!: bit_eqI simp: word_at_def bit_simps dest: bit_imp_le_length)

lemma word_at_inject: "length d = 4 \<Longrightarrow> length e = 4 \<Longrightarrow> word_at d 0 = word_at e 0 \<Longrightarrow> d = e"
  by (clarsimp simp: length_Suc_conv numeral_eq_Suc) (metis word_at_byte)

text \<open>Packets that differ in a run of at most four bytes have different checksums.\<close>

lemma crc32_burst:
  assumes "length w = 4" "length w' = 4" "w \<noteq> w'"
  shows "crc32_fast (p @ w @ q) c \<noteq> crc32_fast (p @ w' @ q) c"
proof -
  have "word_at w 0 \<noteq> word_at w' 0" using word_at_inject assms by blast
  then have "fold crc_feed w x \<noteq> fold crc_feed w' x" for x
    using crc_byte_inject[of 4] by (simp add: feed_word assms xor_swap_cancel del: funpow.simps)
  then show ?thesis by (simp add: crc32_implementations(10) crc32_bitwise_def feed_inject)
qed



end
