(* ===== verification/Lru.thy ===== *)
theory Lru
  imports Prelude
begin

text \<open>
  \<^verbatim>\<open>lru_collector_t\<close> of \<^verbatim>\<open>src/ref/UDPspeeder/common.h\<close>: keys ordered by the time of their last use. The
  linked list is a list of nodes, each with its own identity; the map holds the node of each key, as the code
  holds an iterator. The time is the argument \<open>now\<close>, and \<open>None\<close> is a failed assertion.
\<close>

record 'k lru_node =
  ln_id :: nat
  ln_key :: 'k
  ln_ts :: u64

record 'k lru =
  lru_q :: "'k lru_node list"
  lru_mp :: "'k \<Rightarrow> nat option"
  lru_next :: nat

definition lru_empty_state :: "'k lru" where
  "lru_empty_state = \<lparr>lru_q = [], lru_mp = (\<lambda>_. None), lru_next = 0\<rparr>"

definition list_erase :: "nat \<Rightarrow> 'k lru_node list \<Rightarrow> 'k lru_node list" where
  "list_erase it q = filter (\<lambda>n. ln_id n \<noteq> it) q"

definition lru_push_front :: "u64 \<Rightarrow> 'k \<Rightarrow> 'k lru \<Rightarrow> 'k lru option" where
  "lru_push_front now key l = do {
     check (lru_q l \<noteq> [] \<longrightarrow> now \<ge> ln_ts (hd (lru_q l)));
     Some (l\<lparr>lru_q := \<lparr>ln_id = lru_next l, ln_key = key, ln_ts = now\<rparr> # lru_q l,
       lru_mp := (lru_mp l)(key \<mapsto> lru_next l), lru_next := lru_next l + 1\<rparr>)
   }"

definition lru_update :: "u64 \<Rightarrow> 'k \<Rightarrow> 'k lru \<Rightarrow> 'k lru option" where
  "lru_update now key l = do {
     it \<leftarrow> lru_mp l key;
     lru_push_front now key (l\<lparr>lru_q := list_erase it (lru_q l)\<rparr>)
   }"

definition lru_new_key :: "u64 \<Rightarrow> 'k \<Rightarrow> 'k lru \<Rightarrow> 'k lru option" where
  "lru_new_key now key l = do {
     check (lru_mp l key = None);
     lru_push_front now key l
   }"

definition lru_size :: "'k lru \<Rightarrow> nat" where
  "lru_size l = length (lru_q l)"

definition lru_is_empty :: "'k lru \<Rightarrow> bool" where
  "lru_is_empty l = (lru_q l = [])"

definition lru_clear :: "'k lru \<Rightarrow> 'k lru" where
  "lru_clear l = l\<lparr>lru_q := [], lru_mp := (\<lambda>_. None)\<rparr>"

definition lru_ts_of :: "'k \<Rightarrow> 'k lru \<Rightarrow> u64 option" where
  "lru_ts_of key l = do {
     it \<leftarrow> lru_mp l key;
     n \<leftarrow> find (\<lambda>n. ln_id n = it) (lru_q l);
     Some (ln_ts n)
   }"

definition lru_peek_back :: "'k lru \<Rightarrow> ('k \<times> u64) option" where
  "lru_peek_back l = do {
     check (lru_q l \<noteq> []);
     Some (ln_key (last (lru_q l)), ln_ts (last (lru_q l)))
   }"

definition lru_erase :: "'k \<Rightarrow> 'k lru \<Rightarrow> 'k lru option" where
  "lru_erase key l = do {
     it \<leftarrow> lru_mp l key;
     Some (l\<lparr>lru_q := list_erase it (lru_q l), lru_mp := (lru_mp l)(key := None)\<rparr>)
   }"

section \<open>Abstraction: the keys with their times, the most recent first\<close>

definition lru_abs :: "'k lru \<Rightarrow> ('k \<times> u64) list" where
  "lru_abs l = map (\<lambda>n. (ln_key n, ln_ts n)) (lru_q l)"

definition lru_ok :: "'k lru \<Rightarrow> bool" where
  "lru_ok l \<longleftrightarrow> distinct (map ln_id (lru_q l)) \<and> distinct (map ln_key (lru_q l)) \<and>
     (\<forall>n \<in> set (lru_q l). ln_id n < lru_next l \<and> lru_mp l (ln_key n) = Some (ln_id n)) \<and>
     (\<forall>k. lru_mp l k \<noteq> None \<longrightarrow> k \<in> ln_key ` set (lru_q l)) \<and>
     sorted_wrt (\<lambda>m n. ln_ts n \<le> ln_ts m) (lru_q l)"

definition remove_key :: "'k \<Rightarrow> ('k \<times> u64) list \<Rightarrow> ('k \<times> u64) list" where
  "remove_key key xs = filter (\<lambda>p. fst p \<noteq> key) xs"

text \<open>What a user of the collector may rely on.\<close>

locale recency =
  fixes abs :: "'s \<Rightarrow> ('k \<times> u64) list" and inv :: "'s \<Rightarrow> bool"
    and new :: "u64 \<Rightarrow> 'k \<Rightarrow> 's \<Rightarrow> 's option" and touch :: "u64 \<Rightarrow> 'k \<Rightarrow> 's \<Rightarrow> 's option"
    and forget :: "'k \<Rightarrow> 's \<Rightarrow> 's option" and oldest :: "'s \<Rightarrow> ('k \<times> u64) option"
  assumes inv_distinct: "inv s \<Longrightarrow> distinct (map fst (abs s))"
    and inv_sorted: "inv s \<Longrightarrow> sorted_wrt (\<lambda>p q. snd q \<le> snd p) (abs s)"
    and new_spec: "inv s \<Longrightarrow> k \<notin> fst ` set (abs s) \<Longrightarrow> (\<forall>p \<in> set (abs s). snd p \<le> now) \<Longrightarrow>
      \<exists>s'. new now k s = Some s' \<and> inv s' \<and> abs s' = (k, now) # abs s"
    and touch_spec: "inv s \<Longrightarrow> k \<in> fst ` set (abs s) \<Longrightarrow> (\<forall>p \<in> set (abs s). snd p \<le> now) \<Longrightarrow>
      \<exists>s'. touch now k s = Some s' \<and> inv s' \<and> abs s' = (k, now) # remove_key k (abs s)"
    and forget_spec: "inv s \<Longrightarrow> k \<in> fst ` set (abs s) \<Longrightarrow>
      \<exists>s'. forget k s = Some s' \<and> inv s' \<and> abs s' = remove_key k (abs s)"
    and oldest_spec: "inv s \<Longrightarrow> oldest s = (if abs s = [] then None else Some (last (abs s)))"
begin

lemma oldest_least: "inv s \<Longrightarrow> oldest s = Some (k, t) \<Longrightarrow> p \<in> set (abs s) \<Longrightarrow> t \<le> snd p"
proof -
  assume s: "inv s" "oldest s = Some (k, t)" and p: "p \<in> set (abs s)"
  then have l: "abs s \<noteq> []" "last (abs s) = (k, t)" by (auto simp: oldest_spec split: if_splits)
  have "\<forall>p \<in> set xs. snd (last xs) \<le> snd p" if "sorted_wrt (\<lambda>p q. snd q \<le> snd p) xs" for xs :: "('k \<times> u64) list"
    using that by (induction xs) auto
  then show ?thesis using inv_sorted[OF s(1)] p l by fastforce
qed

lemma oldest_in: "inv s \<Longrightarrow> oldest s = Some p \<Longrightarrow> p \<in> set (abs s)"
  by (auto simp: oldest_spec split: if_splits)

text \<open>Forgetting the oldest removes it from the end.\<close>

lemma forget_oldest:
  assumes "inv s" "oldest s = Some (k, t)"
  shows "\<exists>s'. forget k s = Some s' \<and> inv s' \<and> abs s' = butlast (abs s)"
proof -
  have l: "abs s \<noteq> []" "last (abs s) = (k, t)" using assms by (auto simp: oldest_spec split: if_splits)
  then have a: "abs s = butlast (abs s) @ [(k, t)]" by (metis append_butlast_last_id)
  then have "distinct (map fst (butlast (abs s) @ [(k, t)]))" using inv_distinct[OF assms(1)] by metis
  then have "remove_key k (butlast (abs s) @ [(k, t)]) = butlast (abs s)"
    by (auto simp: remove_key_def filter_id_conv)
  then have r: "remove_key k (abs s) = butlast (abs s)" using a by metis
  have "(k, t) \<in> set (abs s)" using a by (metis in_set_conv_decomp)
  then have "k \<in> fst ` set (abs s)" by force
  from forget_spec[OF assms(1) this] show ?thesis by (simp add: r)
qed

end

lemma lru_ok_keys: "lru_ok l \<Longrightarrow> lru_mp l k = None \<longleftrightarrow> k \<notin> ln_key ` set (lru_q l)"
  by (auto simp: lru_ok_def)

lemma lru_ok_node: "lru_ok l \<Longrightarrow> k \<in> ln_key ` set (lru_q l) \<Longrightarrow> \<exists>n \<in> set (lru_q l). ln_key n = k \<and> lru_mp l k = Some (ln_id n)"
  by (auto simp: lru_ok_def)

text \<open>Erasing the node of a key removes exactly the entry of the key.\<close>

lemma list_erase_key:
  assumes ok: "lru_ok l" and mp: "lru_mp l k = Some it"
  shows "list_erase it (lru_q l) = filter (\<lambda>n. ln_key n \<noteq> k) (lru_q l)"
  unfolding list_erase_def
proof (rule filter_cong[OF refl])
  fix n assume n: "n \<in> set (lru_q l)"
  obtain m where m: "m \<in> set (lru_q l)" "ln_key m = k" "ln_id m = it" using ok mp by (fastforce simp: lru_ok_def)
  have "inj_on ln_id (set (lru_q l))" "inj_on ln_key (set (lru_q l))" using ok by (auto simp: lru_ok_def distinct_map)
  then show "(ln_id n \<noteq> it) = (ln_key n \<noteq> k)" using n m by (metis inj_onD)
qed

lemma lru_push_front_ok:
  assumes ok: "lru_ok l" and new: "k \<notin> ln_key ` set (lru_q l)" and now: "\<forall>p \<in> set (lru_abs l). snd p \<le> now"
  shows "\<exists>l'. lru_push_front now k l = Some l' \<and> lru_ok l' \<and> lru_abs l' = (k, now) # lru_abs l"
proof -
  have ts: "\<forall>n \<in> set (lru_q l). ln_ts n \<le> now" using now by (auto simp: lru_abs_def)
  let ?l = "l\<lparr>lru_q := \<lparr>ln_id = lru_next l, ln_key = k, ln_ts = now\<rparr> # lru_q l, lru_mp := (lru_mp l)(k \<mapsto> lru_next l), lru_next := lru_next l + 1\<rparr>"
  have "lru_push_front now k l = Some ?l" using ts by (simp add: lru_push_front_def)
  moreover have "lru_ok ?l" using ok new ts unfolding lru_ok_def by (auto simp: less_Suc_eq)
  ultimately show ?thesis by (simp add: lru_abs_def)
qed

lemma lru_erase_ok:
  assumes ok: "lru_ok l" and k: "k \<in> ln_key ` set (lru_q l)"
  shows "\<exists>l'. lru_erase k l = Some l' \<and> lru_ok l' \<and> lru_abs l' = remove_key k (lru_abs l) \<and> k \<notin> ln_key ` set (lru_q l')"
proof -
  obtain it where it: "lru_mp l k = Some it" using lru_ok_keys[OF ok, of k] k by auto
  let ?l = "l\<lparr>lru_q := filter (\<lambda>n. ln_key n \<noteq> k) (lru_q l), lru_mp := (lru_mp l)(k := None)\<rparr>"
  have "lru_erase k l = Some ?l" by (simp add: lru_erase_def it list_erase_key[OF ok it])
  moreover have "lru_ok ?l" using ok unfolding lru_ok_def
    by (auto simp: distinct_map_filter sorted_wrt_filter)
  moreover have "lru_abs ?l = remove_key k (lru_abs l)" by (simp add: lru_abs_def remove_key_def filter_map comp_def)
  ultimately show ?thesis by auto
qed

lemma lru_update_ok:
  assumes ok: "lru_ok l" and k: "k \<in> ln_key ` set (lru_q l)" and now: "\<forall>p \<in> set (lru_abs l). snd p \<le> now"
  shows "\<exists>l'. lru_update now k l = Some l' \<and> lru_ok l' \<and> lru_abs l' = (k, now) # remove_key k (lru_abs l)"
proof -
  obtain l1 where l1: "lru_erase k l = Some l1" "lru_ok l1" "lru_abs l1 = remove_key k (lru_abs l)" "k \<notin> ln_key ` set (lru_q l1)"
    using lru_erase_ok[OF ok k] by blast
  obtain it where it: "lru_mp l k = Some it" using lru_ok_keys[OF ok, of k] k by auto
  have "lru_update now k l = lru_push_front now k l1"
    using l1(1) by (auto simp: lru_update_def lru_erase_def it lru_push_front_def)
  then show ?thesis using lru_push_front_ok[OF l1(2,4), of now] l1(3) now by (auto simp: remove_key_def)
qed

lemma lru_abs_keys: "fst ` set (lru_abs l) = ln_key ` set (lru_q l)"
  by (force simp: lru_abs_def)

interpretation lru: recency lru_abs lru_ok lru_new_key lru_update lru_erase lru_peek_back
proof
  fix l :: "'a lru" and k now
  assume ok: "lru_ok l"
  show "distinct (map fst (lru_abs l))" using ok by (simp add: lru_ok_def lru_abs_def comp_def)
  show "sorted_wrt (\<lambda>p q. snd q \<le> snd p) (lru_abs l)" using ok by (simp add: lru_ok_def lru_abs_def sorted_wrt_map)
  show "lru_peek_back l = (if lru_abs l = [] then None else Some (last (lru_abs l)))"
    by (simp add: lru_peek_back_def lru_abs_def last_map)
  show "\<exists>l'. lru_new_key now k l = Some l' \<and> lru_ok l' \<and> lru_abs l' = (k, now) # lru_abs l"
    if "k \<notin> fst ` set (lru_abs l)" "\<forall>p \<in> set (lru_abs l). snd p \<le> now"
    using lru_push_front_ok[OF ok, of k now] lru_ok_keys[OF ok, of k] that by (simp add: lru_new_key_def lru_abs_keys)
  show "\<exists>l'. lru_update now k l = Some l' \<and> lru_ok l' \<and> lru_abs l' = (k, now) # remove_key k (lru_abs l)"
    if "k \<in> fst ` set (lru_abs l)" "\<forall>p \<in> set (lru_abs l). snd p \<le> now"
    using lru_update_ok[OF ok, of k now] that by (simp add: lru_abs_keys)
  show "\<exists>l'. lru_erase k l = Some l' \<and> lru_ok l' \<and> lru_abs l' = remove_key k (lru_abs l)"
    if "k \<in> fst ` set (lru_abs l)"
    using lru_erase_ok[OF ok, of k] that by (auto simp: lru_abs_keys)
qed

lemma lru_ok_empty [inv_intros]: "lru_ok lru_empty_state" "lru_ok (lru_clear l)"
  by (simp_all add: lru_ok_def lru_empty_state_def lru_clear_def)

lemma lru_abs_empty [simp]: "lru_abs lru_empty_state = []" "lru_abs (lru_clear l) = []"
  by (simp_all add: lru_abs_def lru_empty_state_def lru_clear_def)

lemma lru_ts_of_abs:
  assumes ok: "lru_ok l"
  shows "lru_ts_of k l = map_of (lru_abs l) k"
proof (cases "k \<in> ln_key ` set (lru_q l)")
  case True
  then obtain n where n: "n \<in> set (lru_q l)" "ln_key n = k" "lru_mp l k = Some (ln_id n)" using lru_ok_node[OF ok] by blast
  have d: "distinct (map ln_id (lru_q l))" "distinct (map fst (lru_abs l))" using ok by (auto simp: lru_ok_def lru_abs_def comp_def)
  have "find (\<lambda>m. ln_id m = ln_id n) q = Some n" if "n \<in> set q" "distinct (map ln_id q)" for q
    using that by (induction q) (auto simp: image_iff)
  then have "lru_ts_of k l = Some (ln_ts n)" using n d by (simp add: lru_ts_of_def)
  moreover have "map_of (lru_abs l) k = Some (ln_ts n)"
    using n(1,2) d(2) by (intro map_of_is_SomeI) (auto simp: lru_abs_def)
  ultimately show ?thesis by simp
next
  case False
  then have "lru_mp l k = None" using lru_ok_keys[OF ok] by blast
  moreover have "map_of (lru_abs l) k = None" using False by (simp add: map_of_eq_None_iff lru_abs_keys)
  ultimately show ?thesis by (simp add: lru_ts_of_def)
qed

end
