(* ===== verification/Conv_Manager.thy ===== *)
theory Conv_Manager
  imports Lru Bytes "HOL-Library.AList"
begin

text \<open>
  \<^verbatim>\<open>conv_manager_t\<close> of \<^verbatim>\<open>src/ref/UDPspeeder/connection.h\<close>: the conversations of a tunnel. Each has a number and
  a value (an address on the client, a socket on the server); two hash maps lead from the one to the other,
  and the conversations that have not been used for some time are dropped, the oldest first. A hash map is
  an association list with different keys; \<open>dflt\<close> is the value that \<^verbatim>\<open>operator[]\<close> enters for a missing key.
  The values handed to \<^verbatim>\<open>additional_clear_function\<close> are returned as a list. \<open>None\<close> is a failed assertion.
\<close>

definition conv_timeout :: u64 where
  "conv_timeout = 180000"

definition conv_clear_ratio :: nat where
  "conv_clear_ratio = 30"

definition conv_clear_min :: nat where
  "conv_clear_min = 1"

definition conv_clear_interval :: u64 where
  "conv_clear_interval = 1000"

record 'd conv_manager =
  data_to_conv :: "('d \<times> u32) list"
  conv_to_data :: "(u32 \<times> 'd) list"
  conv_lru :: "u32 lru"
  cm_last_clear_time :: u64

definition cm_get_size :: "'d conv_manager \<Rightarrow> nat" where
  "cm_get_size m = length (conv_to_data m)"

definition is_conv_used :: "u32 \<Rightarrow> 'd conv_manager \<Rightarrow> bool" where
  "is_conv_used conv m = (map_of (conv_to_data m) conv \<noteq> None)"

definition is_data_used :: "'d \<Rightarrow> 'd conv_manager \<Rightarrow> bool" where
  "is_data_used data m = (map_of (data_to_conv m) data \<noteq> None)"

definition cm_clear :: "'d conv_manager \<Rightarrow> 'd list \<times> 'd conv_manager" where
  "cm_clear m = (map snd (conv_to_data m), m\<lparr>data_to_conv := [], conv_to_data := [], conv_lru := lru_clear (conv_lru m)\<rparr>)"

text \<open>The numbers drawn are a list; \<open>None\<close> when it ends before a number is found that is not in use.\<close>

fun get_fake_random_number_nz :: "u32 list \<Rightarrow> (u32 \<times> u32 list) option" where
  "get_fake_random_number_nz [] = None"
| "get_fake_random_number_nz (r # rs) = (if r = 0 then get_fake_random_number_nz rs else Some (r, rs))"

lemma random_nz_length: "get_fake_random_number_nz rs = Some (r, rs') \<Longrightarrow> length rs' < length rs"
  by (induction rs) (auto split: if_splits)

function get_new_conv :: "u32 list \<Rightarrow> 'd conv_manager \<Rightarrow> u32 option" where
  "get_new_conv rs m =
    (case get_fake_random_number_nz rs of None \<Rightarrow> None
     | Some (conv, rs) \<Rightarrow> if is_conv_used conv m then get_new_conv rs m else Some conv)"
  by auto
termination by (relation "measure (\<lambda>(rs, m). length rs)") (auto dest: random_nz_length)

declare get_new_conv.simps [simp del]

text \<open>\<^verbatim>\<open>operator[]\<close> of a hash map.\<close>

definition at_or_default :: "'v \<Rightarrow> 'k \<Rightarrow> ('k \<times> 'v) list \<Rightarrow> 'v \<times> ('k \<times> 'v) list" where
  "at_or_default dflt k mp = (case map_of mp k of Some v \<Rightarrow> (v, mp) | None \<Rightarrow> (dflt, AList.update k dflt mp))"

definition find_conv_by_data :: "'d \<Rightarrow> 'd conv_manager \<Rightarrow> u32 \<times> 'd conv_manager" where
  "find_conv_by_data data m =
    (let (conv, mp) = at_or_default 0 data (data_to_conv m) in (conv, m\<lparr>data_to_conv := mp\<rparr>))"

definition find_data_by_conv :: "'d \<Rightarrow> u32 \<Rightarrow> 'd conv_manager \<Rightarrow> 'd \<times> 'd conv_manager" where
  "find_data_by_conv dflt conv m =
    (let (data, mp) = at_or_default dflt conv (conv_to_data m) in (data, m\<lparr>conv_to_data := mp\<rparr>))"

definition cm_update_active_time :: "u64 \<Rightarrow> u32 \<Rightarrow> 'd conv_manager \<Rightarrow> 'd conv_manager option" where
  "cm_update_active_time now conv m = map_option (\<lambda>l. m\<lparr>conv_lru := l\<rparr>) (lru_update now conv (conv_lru m))"

definition insert_conv :: "u64 \<Rightarrow> u32 \<Rightarrow> 'd \<Rightarrow> 'd conv_manager \<Rightarrow> 'd conv_manager option" where
  "insert_conv now conv data m = do {
     let m = m\<lparr>data_to_conv := AList.update data conv (data_to_conv m), conv_to_data := AList.update conv data (conv_to_data m)\<rparr>;
     l \<leftarrow> lru_new_key now conv (conv_lru m);
     Some (m\<lparr>conv_lru := l\<rparr>)
   }"

definition erase_conv :: "'d \<Rightarrow> u32 \<Rightarrow> 'd conv_manager \<Rightarrow> ('d \<times> 'd conv_manager) option" where
  "erase_conv dflt conv m = do {
     let (data, m) = find_data_by_conv dflt conv m;
     let m = m\<lparr>conv_to_data := AList.delete conv (conv_to_data m), data_to_conv := AList.delete data (data_to_conv m)\<rparr>;
     l \<leftarrow> lru_erase conv (conv_lru m);
     Some (data, m\<lparr>conv_lru := l\<rparr>)
   }"

text \<open>At most \<open>n\<close> conversations are dropped.\<close>

fun cm_clear_loop :: "'d \<Rightarrow> u64 \<Rightarrow> nat \<Rightarrow> 'd conv_manager \<Rightarrow> ('d list \<times> 'd conv_manager) option" where
  "cm_clear_loop dflt current_time 0 m = Some ([], m)"
| "cm_clear_loop dflt current_time (Suc n) m =
    (if lru_is_empty (conv_lru m) then Some ([], m)
     else do {
       (conv, ts) \<leftarrow> lru_peek_back (conv_lru m);
       if current_time - ts < conv_timeout then Some ([], m)
       else do {
         (data, m) \<leftarrow> erase_conv dflt conv m;
         (ds, m) \<leftarrow> cm_clear_loop dflt current_time n m;
         Some (data # ds, m)
       }
     })"

definition cm_clear_inactive0 :: "'d \<Rightarrow> u64 \<Rightarrow> 'd conv_manager \<Rightarrow> ('d list \<times> 'd conv_manager) option" where
  "cm_clear_inactive0 dflt current_time m =
    (let size = lru_size (conv_lru m); num_to_clean = min (size div conv_clear_ratio + conv_clear_min) size
     in cm_clear_loop dflt current_time num_to_clean m)"

definition cm_clear_inactive :: "'d \<Rightarrow> u64 \<Rightarrow> 'd conv_manager \<Rightarrow> ('d list \<times> 'd conv_manager) option" where
  "cm_clear_inactive dflt now m =
    (if now - cm_last_clear_time m > conv_clear_interval
     then cm_clear_inactive0 dflt now (m\<lparr>cm_last_clear_time := now\<rparr>) else Some ([], m))"

section \<open>Numbers and values correspond one to one\<close>

definition inverse_maps :: "('a \<Rightarrow> 'b option) \<Rightarrow> ('b \<Rightarrow> 'a option) \<Rightarrow> bool" where
  "inverse_maps f g \<longleftrightarrow> (\<forall>a b. f a = Some b \<longleftrightarrow> g b = Some a)"

lemma inverse_maps_insert: "inverse_maps f g \<Longrightarrow> f a = None \<Longrightarrow> g b = None \<Longrightarrow> inverse_maps (f(a \<mapsto> b)) (g(b \<mapsto> a))"
  unfolding inverse_maps_def fun_upd_apply by (metis option.distinct(1) option.inject)

lemma inverse_maps_delete:
  assumes "inverse_maps f g" "f a = Some b"
  shows "inverse_maps (f(a := None)) (g(b := None))"
proof -
  have "g b = Some a" "\<And>a' b'. f a' = Some b' \<longleftrightarrow> g b' = Some a'" using assms by (auto simp: inverse_maps_def)
  then show ?thesis unfolding inverse_maps_def fun_upd_apply by (metis assms(2) option.distinct(1) option.inject)
qed

definition cm_ok :: "'d conv_manager \<Rightarrow> bool" where
  "cm_ok m \<longleftrightarrow> distinct (map fst (data_to_conv m)) \<and> distinct (map fst (conv_to_data m)) \<and>
     inverse_maps (map_of (conv_to_data m)) (map_of (data_to_conv m)) \<and> lru_ok (conv_lru m) \<and> fst ` set (lru_abs (conv_lru m)) = dom (map_of (conv_to_data m))"

lemma get_new_conv_unused: "get_new_conv rs m = Some conv \<Longrightarrow> \<not> is_conv_used conv m \<and> conv \<noteq> 0"
proof (induction rs m rule: get_new_conv.induct)
  case (1 rs m)
  have nz: "get_fake_random_number_nz rs = Some (r, rs') \<Longrightarrow> r \<noteq> 0" for rs r rs' by (induction rs) (auto split: if_splits)
  obtain c rs' where c: "get_fake_random_number_nz rs = Some (c, rs')" "c \<noteq> 0"
    using "1.prems" nz by (subst (asm) get_new_conv.simps) (fastforce split: option.splits)
  show ?case
  proof (cases "is_conv_used c m")
    case True
    then have "get_new_conv rs' m = Some conv" using "1.prems" c(1) by (subst (asm) get_new_conv.simps) simp
    then show ?thesis using "1.IH"[OF c(1) refl True] by simp
  next
    case False
    then show ?thesis using "1.prems" c by (subst (asm) get_new_conv.simps) simp
  qed
qed

lemma cm_ok_used: "cm_ok m \<Longrightarrow> is_data_used d m \<longleftrightarrow> (\<exists>c. map_of (conv_to_data m) c = Some d)"
  by (auto simp: cm_ok_def inverse_maps_def is_data_used_def)

lemma map_of_AList_delete: "map_of (AList.delete k xs) = (map_of xs)(k := None)"
  by (simp add: AList.delete_conv')

lemma map_of_AList_update: "map_of (AList.update k v xs) = (map_of xs)(k \<mapsto> v)"
  by (simp add: AList.update_conv')

lemma insert_conv_keeps:
  assumes ok: "cm_ok m" and new: "\<not> is_conv_used c m" "\<not> is_data_used d m"
    and now: "\<forall>p \<in> set (lru_abs (conv_lru m)). snd p \<le> now"
  shows "\<exists>m'. insert_conv now c d m = Some m' \<and> cm_ok m' \<and>
    map_of (conv_to_data m') = (map_of (conv_to_data m))(c \<mapsto> d) \<and> map_of (data_to_conv m') = (map_of (data_to_conv m))(d \<mapsto> c) \<and>
    lru_abs (conv_lru m') = (c, now) # lru_abs (conv_lru m)"
proof -
  have l: "lru_ok (conv_lru m)" "fst ` set (lru_abs (conv_lru m)) = dom (map_of (conv_to_data m))" using ok by (auto simp: cm_ok_def)
  have "c \<notin> fst ` set (lru_abs (conv_lru m))" using l(2) new(1) by (auto simp: is_conv_used_def)
  then obtain l' where l': "lru_new_key now c (conv_lru m) = Some l'" "lru_ok l'" "lru_abs l' = (c, now) # lru_abs (conv_lru m)"
    using lru.new_spec[OF l(1) _ now] by blast
  let ?m = "m\<lparr>data_to_conv := AList.update d c (data_to_conv m), conv_to_data := AList.update c d (conv_to_data m), conv_lru := l'\<rparr>"
  have "insert_conv now c d m = Some ?m" by (simp add: insert_conv_def l'(1))
  moreover have "cm_ok ?m"
  proof -
    have "inverse_maps ((map_of (conv_to_data m))(c \<mapsto> d)) ((map_of (data_to_conv m))(d \<mapsto> c))"
      using ok new unfolding cm_ok_def is_conv_used_def is_data_used_def by (intro inverse_maps_insert) blast+
    then show ?thesis using ok l' l(2) by (simp add: cm_ok_def map_of_AList_update distinct_update)
  qed
  ultimately show ?thesis using l'(3) by (simp add: map_of_AList_update)
qed

lemma erase_conv_ok:
  assumes ok: "cm_ok m" and c: "map_of (conv_to_data m) c = Some d"
  shows "\<exists>m'. erase_conv dflt c m = Some (d, m') \<and> cm_ok m' \<and>
    map_of (conv_to_data m') = (map_of (conv_to_data m))(c := None) \<and> lru_abs (conv_lru m') = remove_key c (lru_abs (conv_lru m))"
proof -
  have l: "lru_ok (conv_lru m)" "fst ` set (lru_abs (conv_lru m)) = dom (map_of (conv_to_data m))" using ok by (auto simp: cm_ok_def)
  have "c \<in> fst ` set (lru_abs (conv_lru m))" using l(2) c by auto
  then obtain l' where l': "lru_erase c (conv_lru m) = Some l'" "lru_ok l'" "lru_abs l' = remove_key c (lru_abs (conv_lru m))"
    using lru.forget_spec[OF l(1)] by blast
  let ?m = "m\<lparr>conv_to_data := AList.delete c (conv_to_data m), data_to_conv := AList.delete d (data_to_conv m), conv_lru := l'\<rparr>"
  have "erase_conv dflt c m = Some (d, ?m)" by (simp add: erase_conv_def find_data_by_conv_def at_or_default_def c l'(1))
  moreover have "cm_ok ?m"
  proof -
    have "fst ` set (remove_key c (lru_abs (conv_lru m))) = fst ` set (lru_abs (conv_lru m)) - {c}"
      by (auto simp: remove_key_def)
    moreover have "inverse_maps ((map_of (conv_to_data m))(c := None)) ((map_of (data_to_conv m))(d := None))"
      using ok c by (intro inverse_maps_delete) (auto simp: cm_ok_def)
    ultimately show ?thesis using ok l' l(2) by (simp add: cm_ok_def map_of_AList_delete distinct_delete)
  qed
  ultimately show ?thesis using l'(3) by (simp add: map_of_AList_delete)
qed

lemma cm_update_active_time_ok:
  assumes ok: "cm_ok m" and c: "is_conv_used c m" and now: "\<forall>p \<in> set (lru_abs (conv_lru m)). snd p \<le> now"
  shows "\<exists>m'. cm_update_active_time now c m = Some m' \<and> cm_ok m' \<and> conv_to_data m' = conv_to_data m \<and>
    lru_abs (conv_lru m') = (c, now) # remove_key c (lru_abs (conv_lru m))"
proof -
  have l: "lru_ok (conv_lru m)" "fst ` set (lru_abs (conv_lru m)) = dom (map_of (conv_to_data m))" using ok by (auto simp: cm_ok_def)
  have in_l: "c \<in> fst ` set (lru_abs (conv_lru m))" using l(2) c unfolding is_conv_used_def by auto
  obtain l' where l': "lru_update now c (conv_lru m) = Some l'" "lru_ok l'" "lru_abs l' = (c, now) # remove_key c (lru_abs (conv_lru m))"
    using lru.touch_spec[OF l(1) in_l now] by blast
  have "fst ` set (lru_abs l') = fst ` set (lru_abs (conv_lru m))" using in_l by (auto simp: l'(3) remove_key_def)
  then show ?thesis using ok l' by (simp add: cm_update_active_time_def cm_ok_def)
qed

text \<open>
  One pass of the collector: the \<open>k\<close> oldest conversations go, all of them expired; the pass ends early only
  when nothing is left or the oldest one left has not expired.
\<close>

definition expired :: "u64 \<Rightarrow> u32 \<times> u64 \<Rightarrow> bool" where
  "expired now p \<longleftrightarrow> \<not> now - snd p < conv_timeout"

definition cm_collected :: "u64 \<Rightarrow> nat \<Rightarrow> 'd conv_manager \<Rightarrow> 'd list \<Rightarrow> 'd conv_manager \<Rightarrow> bool" where
  "cm_collected now n m ds m' \<longleftrightarrow> (\<exists>keep drop. lru_abs (conv_lru m) = keep @ drop \<and> lru_abs (conv_lru m') = keep \<and>
     length drop \<le> n \<and> (\<forall>p \<in> set drop. expired now p) \<and> (length drop = n \<or> keep = [] \<or> \<not> expired now (last keep)) \<and>
     (\<forall>c. map_of (conv_to_data m') c = (if c \<in> fst ` set keep then map_of (conv_to_data m) c else None)) \<and>
     map Some ds = map (\<lambda>p. map_of (conv_to_data m) (fst p)) (rev drop))"

lemma cm_clear_loop_collects:
  "cm_ok m \<Longrightarrow> \<exists>ds m'. cm_clear_loop dflt now n m = Some (ds, m') \<and> cm_ok m' \<and> cm_collected now n m ds m'"
proof (induction n arbitrary: m)
  case 0
  have "map_of (conv_to_data m) c = None" if "c \<notin> fst ` set (lru_abs (conv_lru m))" for c
    using 0 that by (auto simp: cm_ok_def)
  then show ?case using 0 by (auto simp: cm_collected_def)
next
  case (Suc n)
  let ?q = "lru_abs (conv_lru m)"
  have dom: "fst ` set ?q = dom (map_of (conv_to_data m))" and ok: "lru_ok (conv_lru m)" using Suc.prems by (auto simp: cm_ok_def)
  have out: "map_of (conv_to_data m) c = None" if "c \<notin> fst ` set ?q" for c using dom that by auto
  consider "?q = []" | c ts where "lru_peek_back (conv_lru m) = Some (c, ts)" "?q \<noteq> []" "last ?q = (c, ts)"
    using lru.oldest_spec[OF ok] by (cases "?q = []"; cases "last ?q") auto
  then show ?case
  proof cases
    case 1
    then have "cm_clear_loop dflt now (Suc n) m = Some ([], m)" by (simp add: lru_is_empty_def lru_abs_def)
    then show ?thesis using Suc.prems 1 out by (auto simp: cm_collected_def)
  next
    case 2
    have ne: "\<not> lru_is_empty (conv_lru m)" using 2(2) by (simp add: lru_is_empty_def lru_abs_def)
    show ?thesis
    proof (cases "now - ts < conv_timeout")
      case True
      then have "cm_clear_loop dflt now (Suc n) m = Some ([], m)" using ne 2(1) by simp
      moreover have "cm_collected now (Suc n) m [] m"
        unfolding cm_collected_def using out True 2 by (intro exI[of _ ?q] exI[of _ "[]"]) (auto simp: expired_def)
      ultimately show ?thesis using Suc.prems by blast
    next
      case False
      have "(c, ts) \<in> set ?q" using 2 by (metis last_in_set)
      then obtain d where d: "map_of (conv_to_data m) c = Some d" using dom by force
      obtain m1 where m1: "erase_conv dflt c m = Some (d, m1)" "cm_ok m1"
          "map_of (conv_to_data m1) = (map_of (conv_to_data m))(c := None)" "lru_abs (conv_lru m1) = remove_key c ?q"
        using erase_conv_ok[OF Suc.prems d] by blast
      have q1: "lru_abs (conv_lru m1) = butlast ?q"
        using lru.forget_oldest[OF ok 2(1)] lru.forget_spec[OF ok, of c] m1(4) domI[of "map_of (conv_to_data m)", OF d] dom by auto
      obtain ds m' where r: "cm_clear_loop dflt now n m1 = Some (ds, m')" "cm_ok m'" "cm_collected now n m1 ds m'"
        using Suc.IH[OF m1(2)] by blast
      obtain keep drop where kd: "butlast ?q = keep @ drop" "lru_abs (conv_lru m') = keep" "length drop \<le> n"
          "\<forall>p \<in> set drop. expired now p" "length drop = n \<or> keep = [] \<or> \<not> expired now (last keep)"
          "\<And>c'. map_of (conv_to_data m') c' = (if c' \<in> fst ` set keep then map_of (conv_to_data m1) c' else None)"
          "map Some ds = map (\<lambda>p. map_of (conv_to_data m1) (fst p)) (rev drop)"
        using r(3) unfolding cm_collected_def q1 by blast
      have q: "?q = keep @ drop @ [(c, ts)]" using 2 kd(1) by (metis append.assoc append_butlast_last_id)
      have "distinct (map fst ?q)" using lru.inv_distinct[OF ok] .
      then have nc: "c \<notin> fst ` set keep" "c \<notin> fst ` set drop" unfolding q by auto
      have "map (\<lambda>p. map_of (conv_to_data m1) (fst p)) (rev drop) = map (\<lambda>p. map_of (conv_to_data m) (fst p)) (rev drop)"
        using nc(2) by (auto simp: m1(3))
      then have "cm_collected now (Suc n) m (d # ds) m'"
        unfolding cm_collected_def using kd q nc d False m1(3)
        by (intro exI[of _ keep] exI[of _ "drop @ [(c, ts)]"]) (auto simp: expired_def)
      then show ?thesis using ne 2(1) False m1(1) r(1,2) by simp
    qed
  qed
qed

text \<open>C13. A pass of the collector over the conversations never fails an assertion and does exactly this: the oldest
  conversations go, at most \<open>n\<close> and only expired ones; it stops early only when none is left or the oldest has not expired;
  all others stay reachable, and the clean-up function has been given the values of those dropped.\<close>

theorem cm_clear_loop_spec:
  "cm_ok m \<Longrightarrow> \<exists>ds m'. cm_clear_loop dflt now n m = Some (ds, m') \<and> cm_ok m' \<and> cm_collected now n m ds m'"
  by (rule cm_clear_loop_collects)

text \<open>C14. A new conversation can be found from both sides: entering an unused number and an unused value never fails the
  assertion of the collector, keeps the two maps inverse to each other and the conversation the most recent one.\<close>

theorem insert_conv_ok:
  assumes ok: "cm_ok m" and new: "\<not> is_conv_used c m" "\<not> is_data_used d m"
    and now: "\<forall>p \<in> set (lru_abs (conv_lru m)). snd p \<le> now"
  shows "\<exists>m'. insert_conv now c d m = Some m' \<and> cm_ok m' \<and>
    map_of (conv_to_data m') = (map_of (conv_to_data m))(c \<mapsto> d) \<and> map_of (data_to_conv m') = (map_of (data_to_conv m))(d \<mapsto> c) \<and>
    lru_abs (conv_lru m') = (c, now) # lru_abs (conv_lru m)"
  by (rule insert_conv_keeps[OF assms])

definition sample_convs :: "nat conv_manager" where
  "sample_convs = \<lparr>data_to_conv = [(70, 7)], conv_to_data = [(7, 70)],
     conv_lru = \<lparr>lru_q = [\<lparr>ln_id = 0, ln_key = 7, ln_ts = 5\<rparr>], lru_mp = [7 \<mapsto> 0], lru_next = 1\<rparr>, cm_last_clear_time = 0\<rparr>"

lemma sample_convs_ok: "cm_ok sample_convs" "lru_abs (conv_lru sample_convs) = [(7, 5)]"
  by (auto simp: cm_ok_def sample_convs_def inverse_maps_def lru_ok_def lru_abs_def)

theorem insert_conv_ok_witness:
  "\<exists>m'. insert_conv 9 8 80 sample_convs = Some m' \<and> cm_ok m' \<and> map_of (conv_to_data m') 8 = Some 80 \<and>
    map_of (data_to_conv m') 80 = Some 8 \<and> map_of (conv_to_data m') 7 = Some 70"
proof -
  have "\<not> is_conv_used 8 sample_convs" "\<not> is_data_used 80 sample_convs" "map_of (conv_to_data sample_convs) 7 = Some 70"
    by (simp_all add: sample_convs_def is_conv_used_def is_data_used_def)
  with insert_conv_ok[OF sample_convs_ok(1), of 8 80 9] sample_convs_ok(2) show ?thesis by auto
qed

theorem cm_clear_loop_spec_witness:
  "\<exists>ds m'. cm_clear_loop 0 200000 3 sample_convs = Some (ds, m') \<and> cm_ok m' \<and> cm_collected 200000 3 sample_convs ds m'"
  by (rule cm_clear_loop_spec[OF sample_convs_ok(1)])

end
