(* ===== verification/Fd_Manager.thy ===== *)
theory Fd_Manager
  imports Conv_Manager
begin

text \<open>
  \<^verbatim>\<open>fd_manager_t\<close> of \<^verbatim>\<open>src/ref/UDPspeeder/fd_manager.cpp\<close>: file descriptors are numbers that the system uses
  again after they are closed; each is given a 64-bit number that is used only once. \<open>dflt\<close> is the value
  that \<^verbatim>\<open>operator[]\<close> enters for a missing key, and \<open>None\<close> is a failed assertion. Closing returns the descriptor
  to be closed.
\<close>

record 'i fd_manager =
  fm_counter :: u64
  fd_to_fd64_mp :: "int \<Rightarrow> u64 option"
  fd64_to_fd_mp :: "u64 \<Rightarrow> int option"
  fd_info_mp :: "u64 \<Rightarrow> 'i option"

definition fd_manager_new :: "'i fd_manager" where
  "fd_manager_new = \<lparr>fm_counter = ucast (- 1 :: u32) + 100, fd_to_fd64_mp = (\<lambda>_. None), fd64_to_fd_mp = (\<lambda>_. None), fd_info_mp = (\<lambda>_. None)\<rparr>"

definition fd_exist :: "int \<Rightarrow> 'i fd_manager \<Rightarrow> bool" where
  "fd_exist fd m = (fd_to_fd64_mp m fd \<noteq> None)"

definition fm_exist :: "u64 \<Rightarrow> 'i fd_manager \<Rightarrow> bool" where
  "fm_exist fd64 m = (fd64_to_fd_mp m fd64 \<noteq> None)"

definition to_fd :: "u64 \<Rightarrow> 'i fd_manager \<Rightarrow> int option" where
  "to_fd fd64 m = fd64_to_fd_mp m fd64"

definition exist_info :: "u64 \<Rightarrow> 'i fd_manager \<Rightarrow> bool" where
  "exist_info fd64 m = (fd_info_mp m fd64 \<noteq> None)"

definition fd64_close :: "u64 \<Rightarrow> 'i fd_manager \<Rightarrow> (int \<times> 'i fd_manager) option" where
  "fd64_close fd64 m = do {
     fd \<leftarrow> fd64_to_fd_mp m fd64;
     let m = m\<lparr>fd64_to_fd_mp := (fd64_to_fd_mp m)(fd64 := None), fd_to_fd64_mp := (fd_to_fd64_mp m)(fd := None)\<rparr>;
     let m = (if exist_info fd64 m then m\<lparr>fd_info_mp := (fd_info_mp m)(fd64 := None)\<rparr> else m);
     Some (fd, m)
   }"

definition fd_create :: "int \<Rightarrow> 'i fd_manager \<Rightarrow> (u64 \<times> 'i fd_manager) option" where
  "fd_create fd m = do {
     check (\<not> fd_exist fd m);
     let fd64 = fm_counter m;
     Some (fd64, m\<lparr>fm_counter := fd64 + 1, fd_to_fd64_mp := (fd_to_fd64_mp m)(fd \<mapsto> fd64), fd64_to_fd_mp := (fd64_to_fd_mp m)(fd64 \<mapsto> fd)\<rparr>)
   }"

definition get_info :: "'i \<Rightarrow> u64 \<Rightarrow> 'i fd_manager \<Rightarrow> ('i \<times> 'i fd_manager) option" where
  "get_info dflt fd64 m = do {
     check (fm_exist fd64 m);
     Some (case fd_info_mp m fd64 of Some i \<Rightarrow> (i, m) | None \<Rightarrow> (dflt, m\<lparr>fd_info_mp := (fd_info_mp m)(fd64 \<mapsto> dflt)\<rparr>))
   }"

section \<open>Numbers are used once\<close>

definition fm_ok :: "'i fd_manager \<Rightarrow> bool" where
  "fm_ok m \<longleftrightarrow> inverse_maps (fd64_to_fd_mp m) (fd_to_fd64_mp m) \<and> dom (fd_info_mp m) \<subseteq> dom (fd64_to_fd_mp m) \<and>
     (\<forall>i \<in> dom (fd64_to_fd_mp m). 2 ^ 32 + 99 \<le> unat i \<and> unat i < unat (fm_counter m)) \<and> 2 ^ 32 + 99 \<le> unat (fm_counter m)"

text \<open>What the rest of the program does with the manager.\<close>

datatype fd_event = Fd_create int u64 | Fd_close u64 int | Fd_info u64

inductive fd_step :: "'i \<Rightarrow> 'i fd_manager \<Rightarrow> fd_event \<Rightarrow> 'i fd_manager \<Rightarrow> bool" for dflt where
  create: "fd_create fd m = Some (fd64, m') \<Longrightarrow> fd_step dflt m (Fd_create fd fd64) m'"
| close: "fd64_close fd64 m = Some (fd, m') \<Longrightarrow> fd_step dflt m (Fd_close fd64 fd) m'"
| info: "get_info dflt fd64 m = Some (i, m') \<Longrightarrow> fd_step dflt m (Fd_info fd64) m'"

inductive fd_run :: "'i \<Rightarrow> 'i fd_manager \<Rightarrow> fd_event list \<Rightarrow> 'i fd_manager \<Rightarrow> bool" for dflt where
  nil: "fd_run dflt m [] m"
| cons: "fd_step dflt m ev m' \<Longrightarrow> fd_run dflt m' evs m'' \<Longrightarrow> fd_run dflt m (ev # evs) m''"

fun created :: "fd_event list \<Rightarrow> u64 list" where
  "created [] = []"
| "created (Fd_create fd fd64 # evs) = fd64 # created evs"
| "created (_ # evs) = created evs"

lemma fm_ok_new [inv_intros]: "fm_ok fd_manager_new"
proof -
  have "(ucast (- 1 :: u32) :: u64) + 100 = 0x100000063" by code_simp
  then show ?thesis by (simp add: fm_ok_def fd_manager_new_def inverse_maps_def)
qed

lemma unat_Suc_no_wrap: "unat (w :: u64) + 1 < 2 ^ 64 \<Longrightarrow> unat (w + 1) = unat w + 1"
  by (simp add: unat_word_ariths)

lemma fd_create_ok:
  assumes "fm_ok m" "fd_create fd m = Some (i, m')" "unat (fm_counter m) + 1 < 2 ^ 64"
  shows "fm_ok m'" "i = fm_counter m" "unat (fm_counter m') = unat (fm_counter m) + 1" "to_fd i m' = Some fd"
proof -
  have e: "fd_to_fd64_mp m fd = None" "i = fm_counter m"
    "m' = m\<lparr>fm_counter := i + 1, fd_to_fd64_mp := (fd_to_fd64_mp m)(fd \<mapsto> i), fd64_to_fd_mp := (fd64_to_fd_mp m)(i \<mapsto> fd)\<rparr>"
    using assms(2) by (auto simp: fd_create_def fd_exist_def Let_def bind_eq_Some_conv)
  have c: "unat (i + 1) = unat i + 1" using unat_Suc_no_wrap assms(3) e(2) by simp
  have "fd64_to_fd_mp m i = None" using assms(1) e(2) by (auto simp: fm_ok_def)
  then have "inverse_maps ((fd64_to_fd_mp m)(i \<mapsto> fd)) ((fd_to_fd64_mp m)(fd \<mapsto> i))"
    using assms(1) e(1) by (intro inverse_maps_insert) (auto simp: fm_ok_def)
  then show "fm_ok m'" using assms(1) e(2) c unfolding fm_ok_def e(3) by (auto simp: less_Suc_eq)
  show "i = fm_counter m" "unat (fm_counter m') = unat (fm_counter m) + 1" "to_fd i m' = Some fd"
    using e(2) c by (simp_all add: e(3) to_fd_def)
qed

lemma fd64_close_ok:
  assumes "fm_ok m" "fd64_close i m = Some (fd, m')"
  shows "fm_ok m'" "fm_counter m' = fm_counter m" "\<not> fm_exist i m'" "to_fd i m = Some fd" "\<not> fd_exist fd m'" "\<not> exist_info i m'"
proof -
  have e: "fd64_to_fd_mp m i = Some fd" "fd64_to_fd_mp m' = (fd64_to_fd_mp m)(i := None)"
    "fd_to_fd64_mp m' = (fd_to_fd64_mp m)(fd := None)" "fd_info_mp m' = (fd_info_mp m)(i := None)" "fm_counter m' = fm_counter m"
    using assms(2) by (auto simp: fd64_close_def Let_def bind_eq_Some_conv exist_info_def split: if_splits)
  have "inverse_maps (fd64_to_fd_mp m') (fd_to_fd64_mp m')"
    unfolding e using assms(1) e(1) by (intro inverse_maps_delete) (auto simp: fm_ok_def)
  then show "fm_ok m'" using assms(1) e unfolding fm_ok_def by auto
  show "fm_counter m' = fm_counter m" "\<not> fm_exist i m'" "to_fd i m = Some fd" "\<not> fd_exist fd m'" "\<not> exist_info i m'"
    using e by (simp_all add: fm_exist_def to_fd_def fd_exist_def exist_info_def)
qed

lemma get_info_ok:
  assumes "fm_ok m" "get_info dflt i m = Some (x, m')"
  shows "fm_ok m'" "fm_counter m' = fm_counter m" "fd64_to_fd_mp m' = fd64_to_fd_mp m" "fd_info_mp m' i = Some x"
  using assms by (auto simp: get_info_def fm_exist_def fm_ok_def bind_eq_Some_conv subset_iff domIff split: option.splits if_splits)

lemma fd_step_ok:
  assumes "fd_step dflt m ev m'" "fm_ok m" "unat (fm_counter m) + 1 < 2 ^ 64"
  shows "fm_ok m' \<and> created [ev] = map word_of_nat [unat (fm_counter m)..<unat (fm_counter m')] \<and>
    unat (fm_counter m) \<le> unat (fm_counter m') \<and> unat (fm_counter m') \<le> unat (fm_counter m) + 1"
  using assms(1)
proof cases
  case (create fd i)
  then show ?thesis using fd_create_ok[OF assms(2) create(2) assms(3)] by simp
next
  case (close i fd)
  then show ?thesis using fd64_close_ok[OF assms(2) close(2)] by simp
next
  case (info i x)
  then show ?thesis using get_info_ok[OF assms(2) info(2)] by simp
qed

text \<open>Over any run shorter than the counter, the numbers handed out are consecutive.\<close>

lemma fd_run_created:
  assumes "fd_run dflt m evs m'"
  shows "fm_ok m \<Longrightarrow> unat (fm_counter m) + length evs < 2 ^ 64 \<Longrightarrow> fm_ok m' \<and>
    created evs = map word_of_nat [unat (fm_counter m)..<unat (fm_counter m')] \<and>
    unat (fm_counter m) \<le> unat (fm_counter m') \<and> unat (fm_counter m') \<le> unat (fm_counter m) + length evs"
  using assms
proof (induction rule: fd_run.induct)
  case (cons m ev m1 evs m2)
  have s: "fm_ok m1" "created [ev] = map word_of_nat [unat (fm_counter m)..<unat (fm_counter m1)]"
    "unat (fm_counter m) \<le> unat (fm_counter m1)" "unat (fm_counter m1) \<le> unat (fm_counter m) + 1"
    using fd_step_ok[OF cons.hyps(1) cons.prems(1)] cons.prems(2) by auto
  have r: "fm_ok m2" "created evs = map word_of_nat [unat (fm_counter m1)..<unat (fm_counter m2)]"
    "unat (fm_counter m1) \<le> unat (fm_counter m2)" "unat (fm_counter m2) \<le> unat (fm_counter m1) + length evs"
    using cons.IH[OF s(1)] s(4) cons.prems(2) by auto
  have "created (ev # evs) = created [ev] @ created evs" by (cases ev) auto
  also have "\<dots> = map word_of_nat [unat (fm_counter m)..<unat (fm_counter m2)]"
    unfolding s(2) r(2) using upt_add_eq_append[OF s(3), of "unat (fm_counter m2) - unat (fm_counter m1)"] r(3) by simp
  finally show ?case using r s by auto
qed auto

text \<open>C15. A number stands for one opening of a descriptor only: in every run, however often the system hands out the same
  descriptor again, the numbers given are pairwise different, none was known before, and none can be mistaken for a descriptor.\<close>

theorem fd_numbers_distinct:
  assumes "fd_run dflt m evs m'" "fm_ok m" "unat (fm_counter m) + length evs < 2 ^ 64"
  shows "distinct (created evs) \<and> (\<forall>i \<in> set (created evs). \<not> fm_exist i m \<and> 2 ^ 32 \<le> unat i)"
proof -
  note r = fd_run_created[OF assms]
  have inj: "unat (word_of_nat n :: u64) = n" if "n < unat (fm_counter m')" for n
    using that r assms(3) by (simp add: unat_of_nat)
  have "inj_on (word_of_nat :: nat \<Rightarrow> u64) {unat (fm_counter m)..<unat (fm_counter m')}"
    using inj by (intro inj_onI) (metis atLeastLessThan_iff)
  then have "distinct (created evs)" using r by (simp add: distinct_map)
  moreover have "\<not> fm_exist i m \<and> 2 ^ 32 \<le> unat i" if i: "i \<in> set (created evs)" for i
  proof -
    obtain n where n: "i = word_of_nat n" "unat (fm_counter m) \<le> n" "n < unat (fm_counter m')" using i r by auto
    then have "unat i = n" using inj by simp
    moreover have "\<not> (i \<in> dom (fd64_to_fd_mp m) \<and> unat (fm_counter m) \<le> unat i)" "2 ^ 32 + 99 \<le> unat (fm_counter m)"
      using assms(2) unfolding fm_ok_def by (meson not_le)+
    ultimately show ?thesis using n(2) by (auto simp: fm_exist_def)
  qed
  ultimately show ?thesis by blast
qed

theorem fd_numbers_distinct_witness:
  "\<exists>i j. fd_run () fd_manager_new [Fd_create 3 i, Fd_close i 3, Fd_create 3 j] (fd_manager_new\<lparr>fm_counter := 0x100000065,
      fd_to_fd64_mp := [3 \<mapsto> j], fd64_to_fd_mp := [j \<mapsto> 3]\<rparr>) \<and> i \<noteq> j \<and> 2 ^ 32 \<le> unat j"
proof -
  let ?i = "0x100000063 :: u64" and ?j = "0x100000064 :: u64"
  let ?m = "fd_manager_new\<lparr>fm_counter := 0x100000065, fd_to_fd64_mp := [3 \<mapsto> ?j], fd64_to_fd_mp := [?j \<mapsto> 3]\<rparr> :: unit fd_manager"
  have new: "fm_counter (fd_manager_new :: unit fd_manager) = ?i" by code_simp
  have run: "fd_run () fd_manager_new [Fd_create 3 ?i, Fd_close ?i 3, Fd_create 3 ?j] ?m"
  proof (intro fd_run.cons fd_step.intros)
    show "fd_create 3 (fd_manager_new :: unit fd_manager) =
      Some (?i, fd_manager_new\<lparr>fm_counter := ?j, fd_to_fd64_mp := [3 \<mapsto> ?i], fd64_to_fd_mp := [?i \<mapsto> 3]\<rparr>)"
      using new by (simp add: fd_create_def fd_exist_def fd_manager_new_def)
    show "fd64_close ?i (fd_manager_new\<lparr>fm_counter := ?j, fd_to_fd64_mp := [3 \<mapsto> ?i], fd64_to_fd_mp := [?i \<mapsto> 3]\<rparr> :: unit fd_manager) =
      Some (3, fd_manager_new\<lparr>fm_counter := ?j\<rparr>)"
      by (simp add: fd64_close_def exist_info_def fd_manager_new_def)
    show "fd_create 3 (fd_manager_new\<lparr>fm_counter := ?j\<rparr> :: unit fd_manager) = Some (?j, ?m)"
      by (simp add: fd_create_def fd_exist_def fd_manager_new_def)
  qed (rule fd_run.nil)
  show ?thesis
    using fd_numbers_distinct[OF run fm_ok_new] run by (intro exI[of _ ?i] exI[of _ ?j] conjI) (simp_all add: new)
qed

end
