(* ===== verification/Delay_Manager.thy ===== *)
theory Delay_Manager
  imports Packet Fd_Manager Double
begin

text \<open>
  \<^verbatim>\<open>delay_manager_t\<close> of \<^verbatim>\<open>src/ref/UDPspeeder/delay_manager.cpp\<close>, which holds packets back until their time has come,
  and \<^verbatim>\<open>my_send\<close> of \<^verbatim>\<open>packet.cpp\<close>, which sends them. The multimap is a list of pairs sorted by time; equal times
  keep the order of insertion. What is sent is returned as a list.
\<close>

section \<open>Destinations\<close>

text \<open>\<^verbatim>\<open>dest_t\<close>: where a packet goes, and whether it is cooked first. Addresses are a parameter of the types.\<close>

datatype 'a dest_kind =
  Type_fd_addr int 'a
| Type_fd64_addr u64 'a
| Type_fd int
| Type_write_fd int
| Type_fd64 u64

record 'a dest =
  dst_kind :: "'a dest_kind"
  dst_cook :: bool

text \<open>The system call a send ends in.\<close>

datatype 'a syscall = Sendto int 'a bytes | Send int bytes | Write int bytes

definition my_send :: "cook_config \<Rightarrow> (nat \<Rightarrow> u8) \<Rightarrow> bytes \<Rightarrow> 'i fd_manager \<Rightarrow> 'a dest \<Rightarrow> bytes \<Rightarrow> 'a syscall option option" where
  "my_send cfg stale iv fm dest data = do {
     data \<leftarrow> (if dst_cook dest then do_cook cfg stale iv data else Some data);
     Some (case dst_kind dest of
         Type_fd_addr fd addr \<Rightarrow> Some (Sendto fd addr data)
       | Type_fd64_addr fd64 addr \<Rightarrow> map_option (\<lambda>fd. Sendto fd addr data) (to_fd fd64 fm)
       | Type_fd fd \<Rightarrow> Some (Send fd data)
       | Type_write_fd fd \<Rightarrow> Some (Write fd data)
       | Type_fd64 fd64 \<Rightarrow> map_option (\<lambda>fd. Send fd data) (to_fd fd64 fm))
   }"

section \<open>Delayed packets\<close>

type_synonym 'a delay_data = "'a dest \<times> bytes"

record 'a delay_manager =
  dm_capacity :: nat
  delay_mp :: "(u64 \<times> 'a delay_data) list"
  dm_timer :: "rat option"

definition delay_manager_new :: "'a delay_manager" where
  "delay_manager_new = \<lparr>dm_capacity = 0, delay_mp = [], dm_timer = None\<rparr>"

text \<open>\<^verbatim>\<open>multimap::insert\<close>: behind all entries whose key is not greater.\<close>

fun mm_insert :: "u64 \<times> 'v \<Rightarrow> (u64 \<times> 'v) list \<Rightarrow> (u64 \<times> 'v) list" where
  "mm_insert p [] = [p]"
| "mm_insert p (q # qs) = (if fst q \<le> fst p then q # mm_insert p qs else p # q # qs)"

text \<open>The return value, what is sent at once, and the state.\<close>

definition delay_add :: "u64 \<Rightarrow> u64 \<Rightarrow> 'a dest \<Rightarrow> bytes \<Rightarrow> 'a delay_manager \<Rightarrow> int \<times> 'a delay_data list \<times> 'a delay_manager" where
  "delay_add now delay dest data m =
    (if dm_capacity m \<noteq> 0 \<and> length (delay_mp m) \<ge> dm_capacity m then (-1, [], m)
     else if delay = 0 then (0, [(dest, data)], m)
     else (0, [], m\<lparr>delay_mp := mm_insert (now + delay, (dest, data)) (delay_mp m)\<rparr>))"

text \<open>\<open>clock\<close> gives the readings of the clock during the call, one in each round.\<close>

fun delay_check_loop :: "(nat \<Rightarrow> u64) \<Rightarrow> nat \<Rightarrow> (u64 \<times> 'a delay_data) list \<Rightarrow> nat \<times> 'a delay_data list \<times> (u64 \<times> 'a delay_data) list" where
  "delay_check_loop clock i [] = (i, [], [])"
| "delay_check_loop clock i ((t, d) # qs) =
    (if t \<le> clock i then (let (j, sent, rest) = delay_check_loop clock (i + 1) qs in (j, d # sent, rest))
     else (i + 1, [], (t, d) # qs))"

text \<open>The timer in seconds: both times are divided in double precision.\<close>

definition timer_value :: "u64 \<Rightarrow> u64 \<Rightarrow> rat" where
  "timer_value first now =
    (let v = f64 (f64 (f64 (of_nat (unat first)) / 1000000) - f64 (f64 (of_nat (unat now)) / 1000000)) in if v < 0 then 0 else v)"

definition delay_check :: "(nat \<Rightarrow> u64) \<Rightarrow> 'a delay_manager \<Rightarrow> 'a delay_data list \<times> 'a delay_manager" where
  "delay_check clock m =
    (if delay_mp m = [] then ([], m)
     else (let (i, sent, rest) = delay_check_loop clock 0 (delay_mp m)
           in (sent, m\<lparr>delay_mp := rest, dm_timer := (if rest = [] then None else Some (timer_value (fst (hd rest)) (clock i)))\<rparr>)))"

section \<open>Order and completeness\<close>

definition dm_ok :: "'a delay_manager \<Rightarrow> bool" where
  "dm_ok m \<longleftrightarrow> sorted (map fst (delay_mp m)) \<and> (dm_capacity m \<noteq> 0 \<longrightarrow> length (delay_mp m) \<le> dm_capacity m)"

lemma mm_insert_split: "mm_insert p qs = takeWhile (\<lambda>q. fst q \<le> fst p) qs @ p # dropWhile (\<lambda>q. fst q \<le> fst p) qs"
  by (induction p qs rule: mm_insert.induct) auto

lemma mset_mm_insert: "mset (mm_insert p qs) = add_mset p (mset qs)"
  by (induction p qs rule: mm_insert.induct) auto

lemma length_mm_insert [len_simps]: "length (mm_insert p qs) = Suc (length qs)"
  by (induction p qs rule: mm_insert.induct) auto

lemma set_mm_insert: "set (mm_insert p qs) = insert p (set qs)"
  using mset_mm_insert[of p qs] by (metis set_mset_add_mset_insert set_mset_mset)

lemma sorted_mm_insert: "sorted (map fst qs) \<Longrightarrow> sorted (map fst (mm_insert p qs))"
  by (induction p qs rule: mm_insert.induct) (auto simp: set_mm_insert)

text \<open>Entries with the same time stay in the order in which they came.\<close>

lemma mm_insert_stable: "sorted (map fst qs) \<Longrightarrow> filter (\<lambda>q. fst q = t) (mm_insert p qs) = filter (\<lambda>q. fst q = t) qs @ (if fst p = t then [p] else [])"
proof (induction p qs rule: mm_insert.induct)
  case (2 p q qs)
  show ?case
  proof (cases "fst q \<le> fst p")
    case False
    then have "\<forall>x \<in> set (q # qs). fst p < fst x" using "2.prems" by (auto intro: order.strict_trans2)
    then have "t = fst p \<Longrightarrow> filter (\<lambda>x. fst x = t) (q # qs) = []" by (auto simp: filter_empty_conv)
    then show ?thesis using False by auto
  qed (use 2 in auto)
qed simp

lemma delay_add_ok [inv_intros]: "dm_ok m \<Longrightarrow> delay_add now delay dest data m = (r, sent, m') \<Longrightarrow> dm_ok m'"
  by (auto simp: delay_add_def dm_ok_def sorted_mm_insert length_mm_insert split: if_splits)

text \<open>With a clock that never runs backwards, everything that is due at the first reading is sent and nothing that is not due at the last.\<close>

lemma delay_check_loop_spec:
  "sorted (map fst qs) \<Longrightarrow> \<exists>k \<le> length qs. delay_check_loop clock i qs = (if k = length qs then i + k else i + k + 1, map snd (take k qs), drop k qs) \<and>
    (\<forall>n<k. fst (qs ! n) \<le> clock (i + n)) \<and> (\<forall>q \<in> set (drop k qs). clock (i + k) < fst q)"
proof (induction qs arbitrary: i)
  case (Cons q qs)
  obtain t d where q: "q = (t, d)" by (cases q)
  show ?case
  proof (cases "t \<le> clock i")
    case True
    obtain k where k: "k \<le> length qs" "delay_check_loop clock (i + 1) qs = (if k = length qs then i + 1 + k else i + 1 + k + 1, map snd (take k qs), drop k qs)"
        "\<forall>n<k. fst (qs ! n) \<le> clock (i + 1 + n)" "\<forall>q \<in> set (drop k qs). clock (i + 1 + k) < fst q"
      using Cons.IH[of "i + 1"] Cons.prems by auto
    then have "\<forall>n < Suc k. fst ((q # qs) ! n) \<le> clock (i + n)" using True by (auto simp: q less_Suc_eq_0_disj)
    then show ?thesis using True k unfolding q by (intro exI[of _ "Suc k"]) simp
  next
    case False
    then show ?thesis using Cons.prems unfolding q
      by (intro exI[of _ 0]) (auto simp: not_le intro: order.strict_trans2)
  qed
qed simp

text \<open>C16. A check of the delayed packets sends them in the order of their times, each only when the clock, read anew before it,
  has reached its time; it stops at the first reading before which no time of a waiting packet had come, or when none is left, and sets
  the timer for the next packet. The others stay, and the bound on their number holds again.\<close>

theorem delay_check_spec:
  assumes ok: "dm_ok m" and chk: "delay_check clock m = (sent, m')"
  shows "\<exists>k. sent = map snd (take k (delay_mp m)) \<and> delay_mp m' = drop k (delay_mp m) \<and> k \<le> length (delay_mp m) \<and>
    (\<forall>n<k. fst (delay_mp m ! n) \<le> clock n) \<and> (\<forall>q \<in> set (delay_mp m'). clock k < fst q) \<and> dm_ok m' \<and>
    (delay_mp m \<noteq> [] \<longrightarrow> dm_timer m' = (if delay_mp m' = [] then None else Some (timer_value (fst (hd (delay_mp m'))) (clock (k + 1)))))"
proof -
  obtain k where k: "k \<le> length (delay_mp m)" "delay_check_loop clock 0 (delay_mp m) =
        (if k = length (delay_mp m) then k else k + 1, map snd (take k (delay_mp m)), drop k (delay_mp m))"
      "\<forall>n<k. fst (delay_mp m ! n) \<le> clock n" "\<forall>q \<in> set (drop k (delay_mp m)). clock k < fst q"
    using delay_check_loop_spec[of "delay_mp m" clock 0] ok by (auto simp: dm_ok_def)
  have e: "sent = map snd (take k (delay_mp m))" "delay_mp m' = drop k (delay_mp m)" "dm_capacity m' = dm_capacity m"
      "delay_mp m \<noteq> [] \<longrightarrow> dm_timer m' = (if delay_mp m' = [] then None else Some (timer_value (fst (hd (delay_mp m'))) (clock (k + 1))))"
    using chk k(1) by (auto simp: delay_check_def k(2) split: if_splits)
  moreover have "dm_ok m'" using ok e by (auto simp: dm_ok_def drop_map [symmetric])
  ultimately show ?thesis using k by (intro exI[of _ k]) simp
qed

theorem delay_check_spec_witness:
  "\<forall>d1 d2 :: unit delay_data. let m = \<lparr>dm_capacity = 0, delay_mp = [(3, d1), (900, d2)], dm_timer = None\<rparr> in
    (\<forall>q \<in> set (delay_mp (snd (delay_check (\<lambda>_. 10) m))). 10 < fst q) \<and> dm_ok (snd (delay_check (\<lambda>_. 10) m))"
proof (intro allI, unfold Let_def)
  fix d1 d2 :: "unit delay_data"
  let ?m = "\<lparr>dm_capacity = 0, delay_mp = [(3, d1), (900, d2)], dm_timer = None\<rparr>"
  obtain s m' where chk: "delay_check (\<lambda>_. 10) ?m = (s, m')" by fastforce
  have "dm_ok ?m" by (simp add: dm_ok_def)
  from delay_check_spec[OF this chk]
  show "(\<forall>q \<in> set (delay_mp (snd (delay_check (\<lambda>_. 10) ?m))). 10 < fst q) \<and> dm_ok (snd (delay_check (\<lambda>_. 10) ?m))"
    unfolding chk by auto
qed

end
