(* ===== verification/Flow.thy ===== *)
theory Flow
  imports Fec_Link Delay_Manager "HOL-Library.Signed_Division"
begin

text \<open>
  \<^verbatim>\<open>from_normal_to_fec\<close>, \<^verbatim>\<open>from_fec_to_normal\<close> and \<^verbatim>\<open>delay_send\<close> of \<^verbatim>\<open>src/ref/UDPspeeder/misc.cpp\<close>: packets of one
  connection through its encoder and decoder, with the counters of \<^verbatim>\<open>stat_t\<close> (\<^verbatim>\<open>connection.h\<close>) and the delays of
  the packets that leave. \<^verbatim>\<open>random_between\<close> returns an \<^verbatim>\<open>int\<close>: its value is signed. The global settings are the record \<open>flow_config\<close>. The clock is read once per call;
  \<open>rnd\<close> is the sequence of random numbers drawn. \<open>None\<close> is a failed assertion.
\<close>

record inner_stat =
  input_packet_num :: u64
  input_packet_size :: u64
  output_packet_num :: u64
  output_packet_size :: u64

record stat =
  last_report_time :: u64
  normal_to_fec :: inner_stat
  fec_to_normal :: inner_stat

definition inner_stat_zero :: inner_stat where
  "inner_stat_zero = \<lparr>input_packet_num = 0, input_packet_size = 0, output_packet_num = 0, output_packet_size = 0\<rparr>"

definition stat_clear :: stat where
  "stat_clear = \<lparr>last_report_time = 0, normal_to_fec = inner_stat_zero, fec_to_normal = inner_stat_zero\<rparr>"

text \<open>\<^verbatim>\<open>report_as_client\<close>: the line that is logged is the numbers in the order of the code.\<close>

definition report_as_client :: "u64 \<Rightarrow> u64 \<Rightarrow> stat \<Rightarrow> u64 list option \<times> stat" where
  "report_as_client report_interval now s =
    (if report_interval \<noteq> 0 \<and> now - last_report_time s > report_interval * 1000
     then (let a = normal_to_fec s; b = fec_to_normal s in
       (Some [input_packet_num a, input_packet_size a, output_packet_num a, output_packet_size a,
         output_packet_num b, output_packet_size b, input_packet_num b, input_packet_size b], s\<lparr>last_report_time := now\<rparr>))
     else (None, s))"

definition report_as_server :: "u64 \<Rightarrow> u64 \<Rightarrow> stat \<Rightarrow> u64 list option \<times> stat" where
  "report_as_server report_interval now s =
    (if report_interval \<noteq> 0 \<and> now - last_report_time s > report_interval * 1000
     then (let a = fec_to_normal s; b = normal_to_fec s in
       (Some [output_packet_num a, output_packet_size a, input_packet_num a, input_packet_size a,
         input_packet_num b, input_packet_size b, output_packet_num b, output_packet_size b], s\<lparr>last_report_time := now\<rparr>))
     else (None, s))"

record 'd conn_info =
  ci_conv :: "'d conv_manager"
  ci_enc :: fec_enc
  ci_dec :: fec_dec
  ci_stat :: stat
  ci_last_active :: u64

definition conn_update_active_time :: "u64 \<Rightarrow> 'd conn_info \<Rightarrow> 'd conn_info" where
  "conn_update_active_time now c = c\<lparr>ci_last_active := now\<rparr>"

record flow_config =
  fc_fec_par :: fec_parameter
  fc_disable_fec :: bool
  fc_fix_latency :: bool
  fc_jitter_min :: u32
  fc_jitter_max :: u32
  fc_output_interval_min :: u32
  fc_output_interval_max :: u32

definition stat_input :: "bytes \<Rightarrow> inner_stat \<Rightarrow> inner_stat" where
  "stat_input b s = s\<lparr>input_packet_num := input_packet_num s + 1, input_packet_size := input_packet_size s + word_of_nat (length b)\<rparr>"

definition stat_output :: "bytes \<Rightarrow> inner_stat \<Rightarrow> inner_stat" where
  "stat_output b s = s\<lparr>output_packet_num := output_packet_num s + 1, output_packet_size := output_packet_size s + word_of_nat (length b)\<rparr>"

definition upd_n2f :: "(inner_stat \<Rightarrow> inner_stat) \<Rightarrow> 'd conn_info \<Rightarrow> 'd conn_info" where
  "upd_n2f f c = c\<lparr>ci_stat := (ci_stat c)\<lparr>normal_to_fec := f (normal_to_fec (ci_stat c))\<rparr>\<rparr>"

definition upd_f2n :: "(inner_stat \<Rightarrow> inner_stat) \<Rightarrow> 'd conn_info \<Rightarrow> 'd conn_info" where
  "upd_f2n f c = c\<lparr>ci_stat := (ci_stat c)\<lparr>fec_to_normal := f (fec_to_normal (ci_stat c))\<rparr>\<rparr>"

text \<open>The delay of the first packet: the rest of the encoder's waiting time, when the latency is to be constant, and a jitter.\<close>

definition common_latency :: "flow_config \<Rightarrow> u64 \<Rightarrow> (nat \<Rightarrow> u32) \<Rightarrow> fec_enc \<Rightarrow> u64 option" where
  "common_latency cfg now rnd e = do {
     fixed \<leftarrow> (if fc_fix_latency cfg \<and> fp_mode (fe_par e) = 0 then do {
         check (fe_first_time_out e \<noteq> 0);
         let pending = word_of_nat (fp_timeout (fe_par e)); let waited = now - fe_first_time_out e;
         Some (if pending \<ge> waited then pending - waited else 0)
       } else Some 0);
     jitter \<leftarrow> random_between (rnd 0) (fc_jitter_min cfg) (fc_jitter_max cfg);
     Some (fixed + scast jitter)
   }"

text \<open>The delays of all \<open>n\<close> packets: each waits a share of a random interval longer than the one before.\<close>

definition out_delays :: "flow_config \<Rightarrow> (nat \<Rightarrow> u32) \<Rightarrow> nat \<Rightarrow> u64 \<Rightarrow> u64 list option" where
  "out_delays cfg rnd n first =
     fold_option (\<lambda>i ds. do {
         r \<leftarrow> random_between (rnd i) (fc_output_interval_min cfg) (fc_output_interval_max cfg);
         Some (ds @ [last ds + word_of_int (sint r sdiv int (n - 1))])
       }) [1..<n] [first]"

definition from_normal_to_fec :: "flow_config \<Rightarrow> u64 \<Rightarrow> (nat \<Rightarrow> u32) \<Rightarrow> bytes option \<Rightarrow> 'd conn_info \<Rightarrow> ((u64 \<times> bytes) list \<times> 'd conn_info) option" where
  "from_normal_to_fec cfg now rnd data c =
    (if fc_disable_fec cfg then
       (case data of None \<Rightarrow> Some ([], c) | Some b \<Rightarrow> Some ([(0, b)], upd_n2f (stat_output b \<circ> stat_input b) c))
     else do {
       let c = (case data of None \<Rightarrow> c | Some b \<Rightarrow> upd_n2f (stat_input b) c);
       (r, e) \<leftarrow> fec_enc_input (fc_fec_par cfg) now data (ci_enc c);
       let (out, e') = fec_enc_output e;
       let pkts = (case out of None \<Rightarrow> [] | Some ps \<Rightarrow> ps);
       ds \<leftarrow> (if pkts \<noteq> [] then do {
           first \<leftarrow> common_latency cfg now rnd e';
           out_delays cfg rnd (length pkts) first
         } else Some []);
       Some (zip ds pkts, upd_n2f (fold stat_output pkts) (c\<lparr>ci_enc := e'\<rparr>))
     })"

definition from_fec_to_normal :: "flow_config \<Rightarrow> u64 \<Rightarrow> (nat \<Rightarrow> bytes) \<Rightarrow> bytes \<Rightarrow> 'd conn_info \<Rightarrow> ((u64 \<times> bytes) list \<times> 'd conn_info) option" where
  "from_fec_to_normal cfg now stale data c =
    (if fc_disable_fec cfg then Some ([(0, data)], upd_f2n (stat_output data \<circ> stat_input data) c)
     else do {
       let c = upd_f2n (stat_input data) c;
       (out, d) \<leftarrow> fec_dec_step now stale data (ci_dec c);
       let pkts = (case out of None \<Rightarrow> [] | Some (n, ps) \<Rightarrow> ps);
       Some (map (Pair 0) pkts, upd_f2n (fold stat_output pkts) (c\<lparr>ci_dec := d\<rparr>))
     })"

text \<open>\<open>random_drop\<close> is in ten-thousandths; \<open>r\<close> is the random number.\<close>

definition delay_send :: "u32 \<Rightarrow> u32 \<Rightarrow> u64 \<Rightarrow> u64 \<Rightarrow> 'a dest \<Rightarrow> bytes \<Rightarrow> 'a delay_manager \<Rightarrow> int \<times> 'a delay_data list \<times> 'a delay_manager" where
  "delay_send random_drop r now delay dest data dm =
    (if dst_cook dest \<and> random_drop \<noteq> 0 \<and> r mod 10000 < random_drop then (0, [], dm)
     else delay_add now delay dest data dm)"

section \<open>Counters\<close>

definition counted :: "bytes list \<Rightarrow> bytes list \<Rightarrow> inner_stat \<Rightarrow> inner_stat \<Rightarrow> bool" where
  "counted ins outs s s' \<longleftrightarrow>
     input_packet_num s' = input_packet_num s + word_of_nat (length ins) \<and>
     input_packet_size s' = input_packet_size s + word_of_nat (sum_list (map length ins)) \<and>
     output_packet_num s' = output_packet_num s + word_of_nat (length outs) \<and>
     output_packet_size s' = output_packet_size s + word_of_nat (sum_list (map length outs))"

lemma counted_fold: "counted [] ps s (fold stat_output ps s)"
  by (induction ps arbitrary: s) (auto simp: counted_def stat_output_def algebra_simps)

lemma counted_input: "counted [b] [] s (stat_input b s)"
  by (simp add: counted_def stat_input_def)

lemma counted_trans: "counted ins outs s s' \<Longrightarrow> counted ins' outs' s' s'' \<Longrightarrow> counted (ins @ ins') (outs @ outs') s s''"
  by (simp add: counted_def algebra_simps)

lemma out_delays_length:
  assumes "out_delays cfg rnd n first = Some ds" "1 \<le> n"
  shows "length ds = n"
  using assms(1) unfolding out_delays_def
  by (rule fold_option_upt_invariant[where P = "\<lambda>i ds. length ds = i"]) (use assms(2) in \<open>auto simp: bind_eq_Some_conv\<close>)

text \<open>The counters of the sending direction are exact modulo \<open>2 ^ 64\<close>: they grow by the number and the total size of
  the packets taken in and of the packets sent out, and the other direction is not touched.\<close>

theorem from_normal_to_fec_counts:
  assumes "from_normal_to_fec cfg now rnd data c = Some (out, c')"
  shows "counted (case data of None \<Rightarrow> [] | Some b \<Rightarrow> [b]) (map snd out) (normal_to_fec (ci_stat c)) (normal_to_fec (ci_stat c')) \<and>
    fec_to_normal (ci_stat c') = fec_to_normal (ci_stat c)"
proof (cases "fc_disable_fec cfg")
  case True
  then show ?thesis using assms
    by (auto simp: from_normal_to_fec_def upd_n2f_def counted_def stat_input_def stat_output_def split: option.splits)
next
  case False
  let ?c = "case data of None \<Rightarrow> c | Some b \<Rightarrow> upd_n2f (stat_input b) c"
  obtain r e0 where e0: "fec_enc_input (fc_fec_par cfg) now data (ci_enc ?c) = Some (r, e0)"
    using assms False by (auto simp: from_normal_to_fec_def Let_def bind_eq_Some_conv)
  obtain o0 e where o0: "fec_enc_output e0 = (o0, e)" by fastforce
  define pkts where "pkts = (case o0 of None \<Rightarrow> [] | Some ps \<Rightarrow> ps)"
  obtain ds where ds: "(if pkts \<noteq> [] then do { first \<leftarrow> common_latency cfg now rnd e; out_delays cfg rnd (length pkts) first } else Some []) = Some ds"
      "out = zip ds pkts" "c' = upd_n2f (fold stat_output pkts) (?c\<lparr>ci_enc := e\<rparr>)"
    using assms False unfolding from_normal_to_fec_def Let_def pkts_def
    by (cases o0) (auto simp: e0 o0 bind_eq_Some_conv split: if_splits)
  have e: "out = zip ds pkts" "length ds = length pkts" "c' = upd_n2f (fold stat_output pkts) (?c\<lparr>ci_enc := e\<rparr>)"
    using ds out_delays_length[of cfg rnd "length pkts" _ ds] by (auto simp: bind_eq_Some_conv Suc_le_eq split: if_splits)
  have "counted (case data of None \<Rightarrow> [] | Some b \<Rightarrow> [b]) [] (normal_to_fec (ci_stat c)) (normal_to_fec (ci_stat ?c))"
    using counted_input by (cases data) (auto simp: counted_def upd_n2f_def stat_input_def)
  moreover have "counted [] pkts (normal_to_fec (ci_stat ?c)) (normal_to_fec (ci_stat c'))"
    by (simp add: e(3) upd_n2f_def counted_fold)
  moreover have "map snd out = pkts" using e(1,2) by simp
  moreover have "fec_to_normal (ci_stat c') = fec_to_normal (ci_stat c)" by (cases data) (auto simp: e(3) upd_n2f_def)
  ultimately show ?thesis using counted_trans[of _ "[]" _ _ "[]"] by force
qed

text \<open>The counters of the receiving direction are exact modulo \<open>2 ^ 64\<close> as well.\<close>

theorem from_fec_to_normal_counts:
  assumes "from_fec_to_normal cfg now stale data c = Some (out, c')"
  shows "counted [data] (map snd out) (fec_to_normal (ci_stat c)) (fec_to_normal (ci_stat c')) \<and>
    normal_to_fec (ci_stat c') = normal_to_fec (ci_stat c)"
proof (cases "fc_disable_fec cfg")
  case True
  then show ?thesis using assms
    by (auto simp: from_fec_to_normal_def upd_f2n_def counted_def stat_input_def stat_output_def)
next
  case False
  obtain pkts d where e: "out = map (Pair 0) pkts" "c' = upd_f2n (fold stat_output pkts) ((upd_f2n (stat_input data) c)\<lparr>ci_dec := d\<rparr>)"
    using assms False by (auto simp: from_fec_to_normal_def Let_def bind_eq_Some_conv split: prod.splits)
  have "counted ([data] @ []) ([] @ pkts) (fec_to_normal (ci_stat c)) (fold stat_output pkts (stat_input data (fec_to_normal (ci_stat c))))"
    by (rule counted_trans[OF counted_input counted_fold])
  then show ?thesis by (simp add: e upd_f2n_def comp_def)
qed

section \<open>Delays\<close>

text \<open>Packets of one call leave in order, and within the configured bounds of each other.\<close>

definition flow_config_ok :: "flow_config \<Rightarrow> bool" where
  "flow_config_ok cfg \<longleftrightarrow> fec_par_ok (fc_fec_par cfg) \<and> fc_jitter_min cfg \<le> fc_jitter_max cfg \<and> fc_jitter_max cfg \<noteq> -1 \<and>
     fc_output_interval_min cfg \<le> fc_output_interval_max cfg \<and> fc_output_interval_max cfg \<noteq> -1"

lemma out_delays_total:
  assumes "flow_config_ok cfg" "1 \<le> n"
  shows "\<exists>ds. out_delays cfg rnd n first = Some ds"
  unfolding out_delays_def
proof (rule fold_option_upt_total[where P = "\<lambda>_ _. True"])
  fix i :: nat and ds :: "u64 list"
  show "\<exists>ds'. (do { r \<leftarrow> random_between (rnd i) (fc_output_interval_min cfg) (fc_output_interval_max cfg);
      Some (ds @ [last ds + word_of_int (sint r sdiv int (n - 1))]) }) = Some ds' \<and> True"
    using random_between_range[of "fc_output_interval_min cfg" "fc_output_interval_max cfg" "rnd i"] assms(1)
    by (auto simp: flow_config_ok_def)
qed (use assms in auto)

section \<open>Counters of a connection without redundancy\<close>

definition plain_flow :: flow_config where
  "plain_flow = \<lparr>fc_fec_par = sample_par, fc_disable_fec = True, fc_fix_latency = False, fc_jitter_min = 0, fc_jitter_max = 0,
     fc_output_interval_min = 0, fc_output_interval_max = 0\<rparr>"

theorem from_normal_to_fec_counts_witness:
  "\<forall>c :: unit conn_info. \<exists>out c'. from_normal_to_fec plain_flow 0 (\<lambda>_. 0) (Some [1, 2]) c = Some (out, c') \<and>
    counted [[1, 2]] (map snd out) (normal_to_fec (ci_stat c)) (normal_to_fec (ci_stat c'))"
proof
  fix c :: "unit conn_info"
  obtain out c' where e: "from_normal_to_fec plain_flow 0 (\<lambda>_. 0) (Some [1, 2]) c = Some (out, c')"
    by (simp add: from_normal_to_fec_def plain_flow_def)
  from from_normal_to_fec_counts[OF this] e
  show "\<exists>out c'. from_normal_to_fec plain_flow 0 (\<lambda>_. 0) (Some [1, 2]) c = Some (out, c') \<and>
    counted [[1, 2]] (map snd out) (normal_to_fec (ci_stat c)) (normal_to_fec (ci_stat c'))" by simp
qed

theorem from_fec_to_normal_counts_witness:
  "\<forall>c :: unit conn_info. \<exists>out c'. from_fec_to_normal plain_flow 0 (\<lambda>_. []) [1, 2] c = Some (out, c') \<and>
    counted [[1, 2]] (map snd out) (fec_to_normal (ci_stat c)) (fec_to_normal (ci_stat c'))"
proof
  fix c :: "unit conn_info"
  obtain out c' where e: "from_fec_to_normal plain_flow 0 (\<lambda>_. []) [1, 2] c = Some (out, c')"
    by (simp add: from_fec_to_normal_def plain_flow_def)
  from from_fec_to_normal_counts[OF this] e
  show "\<exists>out c'. from_fec_to_normal plain_flow 0 (\<lambda>_. []) [1, 2] c = Some (out, c') \<and>
    counted [[1, 2]] (map snd out) (fec_to_normal (ci_stat c)) (fec_to_normal (ci_stat c'))" by simp
qed

end
