(* ===== verification/Tun.thy ===== *)
theory Tun
  imports Flow
begin

text \<open>
  \<^verbatim>\<open>src/ref/tinyfecVPN/tun_dev.cpp\<close>: the one-byte trailer that tells kinds of packets apart, the way of a packet
  from the tunnel device through the encoder to the delay queue and back, the rewriting of the MSS option of TCP
  connections, and keep-alives. Packets are byte lists; header fields are read at their offsets, in the byte order
  of the network, bit fields as a little-endian compiler lays them out.
\<close>

section \<open>Trailer\<close>

definition header_normal :: u8 where "header_normal = 1"
definition header_new_connect :: u8 where "header_new_connect = 2"
definition header_reject :: u8 where "header_reject = 3"
definition header_keep_alive :: u8 where "header_keep_alive = 4"
definition keep_alive_interval :: u64 where "keep_alive_interval = 3000"

definition put_header :: "u8 \<Rightarrow> bytes \<Rightarrow> bytes" where
  "put_header header data = data @ [header]"

definition get_header :: "bytes \<Rightarrow> (u8 \<times> bytes) option" where
  "get_header data = (if length data < 1 then None else Some (data ! (length data - 1), take (length data - 1) data))"

lemma get_put_header [simp, roundtrip_simps]: "get_header (put_header h data) = Some (h, data)"
  by (simp add: get_header_def put_header_def)

section \<open>The way of a packet\<close>

text \<open>The sends of one call, in order. A packet that is delayed by 0 is sent at once: the second component.
  \<open>drop i\<close> is the random number that decides about packet \<open>i\<close>.\<close>

fun delay_send_all :: "u32 \<Rightarrow> (nat \<Rightarrow> u32) \<Rightarrow> u64 \<Rightarrow> 'a dest \<Rightarrow> nat \<Rightarrow> (u64 \<times> bytes) list \<Rightarrow> 'a delay_manager \<Rightarrow>
    'a delay_data list \<times> 'a delay_manager" where
  "delay_send_all random_drop rnd now dest i [] dm = ([], dm)"
| "delay_send_all random_drop rnd now dest i ((delay, data) # out) dm =
    (let (_, sent, dm) = delay_send random_drop (rnd i) now delay dest data dm;
         (sent', dm) = delay_send_all random_drop rnd now dest (i + 1) out dm
     in (sent @ sent', dm))"

definition from_normal_to_fec2 :: "flow_config \<Rightarrow> u32 \<Rightarrow> u64 \<Rightarrow> (nat \<Rightarrow> u32) \<Rightarrow> (nat \<Rightarrow> u32) \<Rightarrow> 'a dest \<Rightarrow> bytes option \<Rightarrow> u8 \<Rightarrow>
    'd conn_info \<times> 'a delay_manager \<Rightarrow> ('a delay_data list \<times> 'd conn_info \<times> 'a delay_manager) option" where
  "from_normal_to_fec2 cfg random_drop now rnd drp dest data header st = (case st of (c, dm) \<Rightarrow> do {
     (out, c) \<leftarrow> from_normal_to_fec cfg now rnd data c;
     let (sent, dm) = delay_send_all random_drop drp now dest 0 (map (\<lambda>(d, p). (d, put_header header p)) out) dm;
     Some (sent, c, dm)
   })"

definition from_fec_to_normal2 :: "flow_config \<Rightarrow> u32 \<Rightarrow> u64 \<Rightarrow> (nat \<Rightarrow> bytes) \<Rightarrow> (nat \<Rightarrow> u32) \<Rightarrow> 'a dest \<Rightarrow> bytes \<Rightarrow>
    'd conn_info \<times> 'a delay_manager \<Rightarrow> ('a delay_data list \<times> 'd conn_info \<times> 'a delay_manager) option" where
  "from_fec_to_normal2 cfg random_drop now stale drp dest data st = (case st of (c, dm) \<Rightarrow> do {
     (out, c) \<leftarrow> from_fec_to_normal cfg now stale data c;
     let (sent, dm) = delay_send_all random_drop drp now dest 0 out dm;
     Some (sent, c, dm)
   })"

text \<open>The time of the last keep-alive is a global variable.\<close>

definition do_keep_alive :: "u32 \<Rightarrow> u32 \<Rightarrow> u64 \<Rightarrow> 'a dest \<Rightarrow> u64 \<times> 'a delay_manager \<Rightarrow>
    ('a delay_data list \<times> u64 \<times> 'a delay_manager) option" where
  "do_keep_alive random_drop r now dest st = (case st of (last_keep_alive_time, dm) \<Rightarrow>
     if now - last_keep_alive_time > keep_alive_interval then do {
       check (dst_cook dest);
       let (_, sent, dm) = delay_send random_drop r now 0 dest [header_keep_alive] dm;
       Some (sent, now, dm)
     } else Some ([], last_keep_alive_time, dm))"

section \<open>MSS option\<close>

definition be16 :: "bytes \<Rightarrow> nat \<Rightarrow> nat" where
  "be16 s i = unat (read_u16 (drop i s))"

definition tcp_pseudo :: "bytes \<Rightarrow> nat \<Rightarrow> bytes" where
  "tcp_pseudo s tcp_len = take 4 (drop 12 s) @ take 4 (drop 16 s) @ [0, s ! 9] @ write_u16 (word_of_nat tcp_len)"

text \<open>The offset of the checksum in the TCP header is 16. The checksum is stored in the order of the machine.\<close>

definition mss_rewrite :: "int \<Rightarrow> nat \<Rightarrow> nat \<Rightarrow> nat \<Rightarrow> bytes \<Rightarrow> bytes" where
  "mss_rewrite mssfix ip_hdr_len tcp_len ptr s =
    (let mss = int (be16 s (ptr + 2));
         new_mss = (if mss > mssfix - 40 - 10 then mssfix - 40 - 10 else mss);
         s = overwrite (ptr + 2) (write_u16 (word_of_int new_mss)) s;
         psh = tcp_pseudo s tcp_len;
         s = overwrite (ip_hdr_len + 16) [0, 0] s;
         c = tcp_csum psh (take tcp_len (drop ip_hdr_len s))
     in overwrite (ip_hdr_len + 16) [ucast c, ucast (drop_bit 8 c)] s)"

text \<open>The walk over the TCP options from \<open>ptr\<close>: the return value, and the offset of the MSS option if it was found.\<close>

function mss_scan :: "bytes \<Rightarrow> nat \<Rightarrow> nat \<Rightarrow> int \<times> nat option" where
  "mss_scan s ptr option_end =
    (if ptr \<ge> option_end then (0, None)
     else if s ! ptr = 0 then (0, None)
     else if s ! ptr = 1 then mss_scan s (ptr + 1) option_end
     else if s ! ptr = 2 then
       (if ptr + 1 \<ge> option_end then (-1, None)
        else if s ! (ptr + 1) \<noteq> 4 then (-1, None)
        else if ptr + 3 \<ge> option_end then (-1, None)
        else (0, Some ptr))
     else if ptr + 1 \<ge> option_end then (-1, None)
     else if s ! (ptr + 1) \<le> 1 then (-1, None)
     else mss_scan s (ptr + unat (s ! (ptr + 1))) option_end)"
  by pat_completeness auto
termination
proof (relation "measure (\<lambda>(s, ptr, e). e - ptr)", goal_cases)
  case (3 s ptr e)
  then have "1 < unat (s ! (ptr + 1))" by (simp add: word_le_nat_alt not_le)
  then show ?case using 3 by auto
qed auto

declare mss_scan.simps [simp del]

definition do_mssfix :: "int \<Rightarrow> bytes \<Rightarrow> int \<times> bytes" where
  "do_mssfix mssfix s =
    (if mssfix = 0 then (0, s)
     else if length s < 20 then (-1, s)
     else if drop_bit 4 (s ! 0) \<noteq> 4 then (0, s)
     else if s ! 9 \<noteq> 6 then (0, s)
     else (let ip_len = be16 s 2; ip_hdr_len = unat (s ! 0 AND 0xF) * 4 in
       if length s < ip_hdr_len then (-1, s)
       else if length s < ip_len then (-1, s)
       else if ip_hdr_len > ip_len then (-1, s)
       else if read_u16 (drop 6 s) AND 0x1FFF \<noteq> 0 then (0, s)
       else if read_u16 (drop 6 s) AND 0x80FF \<noteq> 0 then (0, s)
       else (let tcp_len = ip_len - ip_hdr_len in
         if tcp_len < 20 then (-1, s)
         else if s ! (ip_hdr_len + 13) AND 2 = 0 then (0, s)
         else (let tcp_hdr_len = unat (drop_bit 4 (s ! (ip_hdr_len + 12))) * 4 in
           if tcp_len < tcp_hdr_len then (-1, s)
           else (case mss_scan s (ip_hdr_len + 20) (ip_hdr_len + tcp_hdr_len) of
               (r, None) \<Rightarrow> (r, s)
             | (r, Some ptr) \<Rightarrow> (r, mss_rewrite mssfix ip_hdr_len tcp_len ptr s))))))"

lemma mss_scan_bounds: "mss_scan s ptr e = (r, Some p) \<Longrightarrow> ptr \<le> p \<and> p + 3 < e \<and> r = 0"
proof (induction s ptr e rule: mss_scan.induct)
  case (1 s ptr e)
  show ?case
    using 1 by (subst (asm) mss_scan.simps) (force split: if_splits)
qed

lemma tcp_csum_alt: "length ph = 12 \<Longrightarrow> tcp_csum ph ptr = csum (ph @ ptr)"
proof -
  assume l: "length ph = 12"
  have "length (le_words bs) = length bs div 2" if "even (length bs)" for bs
    using that by (induction bs rule: le_words.induct) auto
  then have "take 6 (le_words ph) = le_words ph" using l by simp
  then show ?thesis using l by (simp add: tcp_csum_def csum_def fold_plus le_words_append)
qed

lemma overwrite_overwrite: "i + length ys \<le> length xs \<Longrightarrow> length zs = length ys \<Longrightarrow> overwrite i zs (overwrite i ys xs) = overwrite i zs xs"
  by (simp add: overwrite_def)

lemma drop_overwrite:
  "i + j + length ys \<le> length xs \<Longrightarrow> drop i (overwrite (i + j) ys xs) = take j (drop i xs) @ ys @ drop (i + j + length ys) xs"
  by (simp add: overwrite_def take_drop add.commute)

lemma mss_rewrite_spec:
  assumes hdr: "20 \<le> hdr" and ptr: "hdr + 20 \<le> ptr" "ptr + 3 < hdr + tcp_len" and len: "hdr + tcp_len \<le> length s" "tcp_len < 65500"
    and lim: "50 \<le> mssfix"
  defines "s' \<equiv> mss_rewrite mssfix hdr tcp_len ptr s"
  shows "length s' = length s" "int (be16 s' (ptr + 2)) = min (int (be16 s (ptr + 2))) (mssfix - 50)"
    "\<And>i. i < length s \<Longrightarrow> i \<notin> {ptr + 2, ptr + 3, hdr + 16, hdr + 17} \<Longrightarrow> s' ! i = s ! i"
    "tcp_csum (tcp_pseudo s' tcp_len) (take tcp_len (drop hdr s')) = 0"
proof -
  define m where "m = min (int (be16 s (ptr + 2))) (mssfix - 50)"
  define s1 where "s1 = overwrite (ptr + 2) (write_u16 (word_of_int m)) s"
  define s2 where "s2 = overwrite (hdr + 16) [0, 0] s1"
  define psh where "psh = tcp_pseudo s1 tcp_len"
  define c where "c = tcp_csum psh (take tcp_len (drop hdr s2))"
  have "be16 s (ptr + 2) < 65536" by (simp add: be16_def)
  then have m: "0 \<le> m" "m < 65536" using lim unfolding m_def by linarith+
  have s': "s' = overwrite (hdr + 16) [ucast c, ucast (drop_bit 8 c)] s2"
    by (simp add: s'_def mss_rewrite_def Let_def c_def psh_def s2_def s1_def m_def min_def algebra_simps)
  have l: "length s1 = length s" "length s2 = length s" using ptr len by (simp_all add: s1_def s2_def)
  have n1: "s1 ! i = s ! i" if "i < length s" "i \<noteq> ptr + 2" "i \<noteq> ptr + 3" for i
    using that ptr len by (auto simp: s1_def nth_overwrite)
  have n': "s' ! i = s1 ! i" if "i < length s" "i \<noteq> hdr + 16" "i \<noteq> hdr + 17" for i
    using that ptr len l by (auto simp: s' s2_def nth_overwrite)
  show ls': "length s' = length s" using ptr len l by (simp add: s')
  show "s' ! i = s ! i" if "i < length s" "i \<notin> {ptr + 2, ptr + 3, hdr + 16, hdr + 17}" for i
    using that n1 n' by simp
  have "read_u16 (drop (ptr + 2) s') = read_u16 (drop (ptr + 2) s1)"
    using n'[of "ptr + 2"] n'[of "ptr + 3"] ptr len l ls' by (simp add: read_u16_def numeral_3_eq_3)
  also have "\<dots> = word_of_int m"
    using drop_overwrite[of "ptr + 2" 0 "write_u16 (word_of_int m)" s] ptr len by (simp add: s1_def)
  finally show "int (be16 s' (ptr + 2)) = min (int (be16 s (ptr + 2))) (mssfix - 50)"
    unfolding m_def [symmetric] using m by (simp add: be16_def unsigned_of_int take_bit_int_eq_self)
  define A B where "A = take 16 (drop hdr s1)" and "B = take (tcp_len - 18) (drop (hdr + 18) s1)"
  have seg: "take tcp_len (drop hdr (overwrite (hdr + 16) [a, b] s1)) = A @ [a, b] @ B" for a b
  proof -
    have "tcp_len - 16 = Suc (Suc (tcp_len - 18))" using ptr by simp
    then show ?thesis
      using drop_overwrite[of hdr 16 "[a, b]" s1] ptr len l by (simp add: A_def B_def min_def add.commute)
  qed
  have s'1: "s' = overwrite (hdr + 16) [ucast c, ucast (drop_bit 8 c)] s1"
    unfolding s' s2_def using ptr len l by (intro overwrite_overwrite) auto
  have "take 36 s' = take 36 s1" using hdr len l ptr by (simp add: s'1 overwrite_def min_def)
  then have "take 4 (drop 12 (take 36 s')) = take 4 (drop 12 (take 36 s1))" "take 4 (drop 16 (take 36 s')) = take 4 (drop 16 (take 36 s1))"
    by simp_all
  then have psh': "tcp_pseudo s' tcp_len = psh"
    using n'[of 9] hdr len ptr by (simp add: tcp_pseudo_def psh_def drop_take)
  have lpsh: "length psh = 12" "length A = 16" using len ptr l hdr by (auto simp: psh_def tcp_pseudo_def A_def)
  have "c = csum ((psh @ A) @ [0, 0] @ B)" using lpsh by (simp add: c_def s2_def seg tcp_csum_alt)
  moreover have "csum ((psh @ A) @ [ucast c, ucast (drop_bit 8 c)] @ B) = tcp_csum (tcp_pseudo s' tcp_len) (take tcp_len (drop hdr s'))"
    unfolding psh' using lpsh by (simp add: s'1 seg tcp_csum_alt)
  moreover have "length (psh @ A) + length B < 65536" using lpsh len(2) by (simp add: B_def)
  ultimately show "tcp_csum (tcp_pseudo s' tcp_len) (take tcp_len (drop hdr s')) = 0"
    using csum_verifies[of "psh @ A" B] lpsh by simp
qed


definition syn_packet :: bytes where
  "syn_packet = [0x45, 0, 0, 44, 0, 0, 0, 0, 64, 6, 0, 0, 10, 0, 0, 1, 10, 0, 0, 2,
     0x30, 0x39, 0, 80, 0, 0, 0, 1, 0, 0, 0, 0, 0x60, 2, 0xFF, 0xFF, 0, 0, 0, 0, 2, 4, 5, 0xB4]"


end
