(* ===== verification/Adaptive.thy ===== *)
theory Adaptive
  imports Fec_Param
begin

text \<open>
  \<^verbatim>\<open>src/adaptive_fec.h\<close>: the controller that adapts the number of redundant packets to the observed loss.
  Its operations hold a mutex throughout, so each is one step on the record. Counters are mathematical integers
  (their overflow is undefined in C++); values of type \<^verbatim>\<open>double\<close> are rounded rationals, see \<open>Double\<close>. The clock
  is an argument of \<^verbatim>\<open>adjust\<close>.
\<close>

section \<open>Model\<close>

record adaptive_fec =
  data_shards :: int
  parity_shards :: int
  min_parity :: int
  max_parity :: int
  window_sent :: int
  window_lost :: int
  rtt_ms :: rat
  consecutive_low :: int
  last_adjust_time :: rat

text \<open>A time of the monotonic clock, from its seconds and nanoseconds.\<close>

definition now_sec :: "int \<Rightarrow> int \<Rightarrow> rat" where
  "now_sec tv_sec tv_nsec = f64 (of_int tv_sec + f64 (of_int tv_nsec * f64 (1 / 10 ^ 9)))"

definition af_init :: "int \<Rightarrow> int \<Rightarrow> adaptive_fec" where
  "af_init data parity = \<lparr>data_shards = data, parity_shards = parity, min_parity = 2, max_parity = data,
     window_sent = 0, window_lost = 0, rtt_ms = 0, consecutive_low = 0, last_adjust_time = 0\<rparr>"

definition record_sent :: "int \<Rightarrow> adaptive_fec \<Rightarrow> adaptive_fec" where
  "record_sent n a = a\<lparr>window_sent := window_sent a + n\<rparr>"

definition record_loss :: "int \<Rightarrow> adaptive_fec \<Rightarrow> adaptive_fec" where
  "record_loss n a = a\<lparr>window_lost := window_lost a + n\<rparr>"

definition set_rtt :: "rat \<Rightarrow> adaptive_fec \<Rightarrow> adaptive_fec" where
  "set_rtt ms a = a\<lparr>rtt_ms := ms\<rparr>"

definition af_loss_rate :: "adaptive_fec \<Rightarrow> rat" where
  "af_loss_rate a = f64 (f64 (of_int (window_lost a)) / f64 (of_int (window_sent a)))"

definition af_rtt_factor :: "rat \<Rightarrow> rat" where
  "af_rtt_factor ms = (if ms > 300 then f64 (16 / 10) else if ms > 100 then f64 (13 / 10) else 1)"

definition af_target :: "adaptive_fec \<Rightarrow> int" where
  "af_target a =
    (let loss_rate = af_loss_rate a; rtt_factor = af_rtt_factor (rtt_ms a);
         target = (if loss_rate < f64 (2 / 100) then min_parity a
                   else if loss_rate < f64 (5 / 100) then trunc (f64 (3 * rtt_factor))
                   else if loss_rate < f64 (10 / 100) then trunc (f64 (5 * rtt_factor))
                   else if loss_rate < f64 (20 / 100) then trunc (f64 (8 * rtt_factor))
                   else max_parity a);
         target = (if target < min_parity a then min_parity a else target)
     in if target > max_parity a then max_parity a else target)"

text \<open>One step towards the target; lowering the redundancy takes three evaluations in a row.\<close>

definition af_move :: "int \<Rightarrow> bool \<Rightarrow> adaptive_fec \<Rightarrow> adaptive_fec" where
  "af_move target low_loss a =
    (if target > parity_shards a then a\<lparr>parity_shards := parity_shards a + 1, consecutive_low := 0\<rparr>
     else if target < parity_shards a then
       (let a = a\<lparr>consecutive_low := consecutive_low a + 1\<rparr> in
        if consecutive_low a \<ge> 3 then a\<lparr>parity_shards := parity_shards a - 1, consecutive_low := 0\<rparr> else a)
     else a\<lparr>consecutive_low := (if low_loss then consecutive_low a + 1 else 0)\<rparr>)"

definition af_clamp :: "adaptive_fec \<Rightarrow> adaptive_fec" where
  "af_clamp a =
    (let a = (if parity_shards a < min_parity a then a\<lparr>parity_shards := min_parity a\<rparr> else a)
     in if parity_shards a > max_parity a then a\<lparr>parity_shards := max_parity a\<rparr> else a)"

text \<open>\<^verbatim>\<open>adjust\<close>: the return value, the numbers of data and parity shards written through the references, the state.\<close>

definition af_adjust :: "rat \<Rightarrow> adaptive_fec \<Rightarrow> bool \<times> (int \<times> int) \<times> adaptive_fec" where
  "af_adjust now a =
    (if window_sent a < 50 then (False, (data_shards a, parity_shards a), a)
     else if last_adjust_time a > 0 \<and> f64 (now - last_adjust_time a) < 3 then (False, (data_shards a, parity_shards a), a)
     else
       (let a' = af_clamp (af_move (af_target a) (af_loss_rate a < f64 (2 / 100)) a);
            a' = a'\<lparr>window_sent := 0, window_lost := 0, last_adjust_time := now\<rparr>
        in (parity_shards a' \<noteq> parity_shards a, (data_shards a', parity_shards a'), a')))"

section \<open>Bounds\<close>

definition af_ok :: "adaptive_fec \<Rightarrow> bool" where
  "af_ok a \<longleftrightarrow> min_parity a \<le> parity_shards a \<and> parity_shards a \<le> max_parity a \<and> 0 \<le> consecutive_low a"

lemma af_target_range: "min_parity a \<le> max_parity a \<Longrightarrow> min_parity a \<le> af_target a \<and> af_target a \<le> max_parity a"
  by (auto simp: af_target_def Let_def)

lemma af_move_spec:
  assumes "af_ok a" "min_parity a \<le> t" "t \<le> max_parity a"
  shows "af_ok (af_move t low a)" "\<bar>parity_shards (af_move t low a) - parity_shards a\<bar> \<le> 1"
    "af_clamp (af_move t low a) = af_move t low a"
  using assms by (auto simp: af_move_def af_ok_def af_clamp_def Let_def)

lemma af_move_params:
  "min_parity (af_move t low a) = min_parity a" "max_parity (af_move t low a) = max_parity a"
  "data_shards (af_move t low a) = data_shards a" "rtt_ms (af_move t low a) = rtt_ms a"
  by (auto simp: af_move_def Let_def)

lemma af_ok_range: "af_ok a \<Longrightarrow> min_parity a \<le> max_parity a"
  by (simp add: af_ok_def)

text \<open>An evaluation that is due is one move, once the controller is inside its bounds.\<close>

definition af_due :: "rat \<Rightarrow> adaptive_fec \<Rightarrow> bool" where
  "af_due now a \<longleftrightarrow> 50 \<le> window_sent a \<and> \<not> (last_adjust_time a > 0 \<and> f64 (now - last_adjust_time a) < 3)"

lemma af_adjust_due:
  assumes "af_ok a" "af_due now a"
  defines "a' \<equiv> af_move (af_target a) (af_loss_rate a < f64 (2 / 100)) a"
  shows "af_adjust now a = (parity_shards a' \<noteq> parity_shards a, (data_shards a, parity_shards a'),
    a'\<lparr>window_sent := 0, window_lost := 0, last_adjust_time := now\<rparr>)"
  using af_move_spec(3)[OF assms(1)] af_target_range[OF af_ok_range[OF assms(1)]] assms(2)
  by (auto simp: af_adjust_def af_due_def a'_def af_move_params Let_def)

lemma af_adjust_not_due: "\<not> af_due now a \<Longrightarrow> af_adjust now a = (False, (data_shards a, parity_shards a), a)"
  by (auto simp: af_adjust_def af_due_def)

lemma af_adjust_keeps:
  assumes "af_ok a" "af_adjust now a = (changed, (d, p), a')"
  shows "af_ok a'" "\<bar>p - parity_shards a\<bar> \<le> 1" "changed \<longleftrightarrow> p \<noteq> parity_shards a" "p = parity_shards a'" "d = data_shards a"
    "min_parity a' = min_parity a" "max_parity a' = max_parity a" "data_shards a' = data_shards a" "\<not> af_due now a \<Longrightarrow> a' = a"
proof -
  let ?m = "af_move (af_target a) (af_loss_rate a < f64 (2 / 100)) a"
  have m: "af_ok ?m" "\<bar>parity_shards ?m - parity_shards a\<bar> \<le> 1"
    using af_move_spec[OF assms(1)] af_target_range[OF af_ok_range[OF assms(1)]] by auto
  have "(changed, (d, p), a') = (if af_due now a
      then (parity_shards ?m \<noteq> parity_shards a, (data_shards a, parity_shards ?m),
        ?m\<lparr>window_sent := 0, window_lost := 0, last_adjust_time := now\<rparr>)
      else (False, (data_shards a, parity_shards a), a))"
    using assms af_adjust_due[OF assms(1), of now] af_adjust_not_due[of now a] by simp
  then show "af_ok a'" "\<bar>p - parity_shards a\<bar> \<le> 1" "changed \<longleftrightarrow> p \<noteq> parity_shards a" "p = parity_shards a'" "d = data_shards a"
    "min_parity a' = min_parity a" "max_parity a' = max_parity a" "data_shards a' = data_shards a" "\<not> af_due now a \<Longrightarrow> a' = a"
    using m assms(1) by (auto simp: af_move_params af_ok_def split: if_splits)
qed

text \<open>C17. An evaluation of the adaptive controller keeps the parity inside its bounds, changes it by at most one,
  reports a change exactly when there is one, and hands out what it stores; an evaluation that is not due (fewer
  than 50 packets in the window, or within three seconds) changes nothing. The hypothesis excludes the start with
  a parity outside the bounds, which \<open>af_clamp_jump\<close> shows to be corrected in one step.\<close>

theorem af_adjust_bounds:
  assumes "af_ok a" "af_adjust now a = (changed, (d, p), a')"
  shows "af_ok a' \<and> \<bar>p - parity_shards a\<bar> \<le> 1 \<and> (changed \<longleftrightarrow> p \<noteq> parity_shards a) \<and>
    p = parity_shards a' \<and> d = data_shards a \<and> (\<not> af_due now a \<longrightarrow> a' = a)"
  using af_adjust_keeps[OF assms] by blast

theorem af_adjust_bounds_witness:
  "\<exists>a'. af_adjust 10 ((af_init 20 10)\<lparr>window_sent := 100, window_lost := 50\<rparr>) = (True, (20, 11), a') \<and> af_ok a'"
proof -
  let ?a = "(af_init 20 10)\<lparr>window_sent := 100, window_lost := 50\<rparr>"
  have f: "f64 (50 / 100) = 1 / 2" "f64 100 = 100" "f64 50 = 50" by code_simp+
  have g: "f64 (1/2) = 1/2" "\<not> (1/2 :: rat) < f64 (2/100)" "\<not> (1/2 :: rat) < f64 (5/100)"
    "\<not> (1/2 :: rat) < f64 (10/100)" "\<not> (1/2 :: rat) < f64 (20/100)" by code_simp+
  have t: "af_target ?a = 20" "af_loss_rate ?a = 1 / 2"
    using f g by (simp_all add: af_target_def af_loss_rate_def Let_def af_init_def)
  have ok: "af_ok ?a" by (simp add: af_ok_def af_init_def)
  obtain c d p a' where r: "af_adjust 10 ?a = (c, (d, p), a')" by (metis prod.exhaust)
  have "p = 11" "d = 20"
    using r t by (auto simp: af_adjust_def af_move_def af_clamp_def Let_def af_init_def split: if_splits)
  then show ?thesis using r af_adjust_bounds[OF ok r] by (auto simp: af_init_def)
qed

text \<open>A start outside the bounds jumps by more than one.\<close>

lemma af_clamp_jump:
  "max_parity a < parity_shards a \<Longrightarrow> min_parity a \<le> max_parity a \<Longrightarrow> af_due now a \<Longrightarrow>
   parity_shards (snd (snd (af_adjust now a))) = max_parity a"
  by (auto simp: af_adjust_def af_due_def af_clamp_def af_move_def Let_def af_target_def)

section \<open>Convergence\<close>

text \<open>Windows of traffic, each with its packets sent and lost and the time of the evaluation that follows.\<close>

definition af_window :: "int \<times> int \<times> rat \<Rightarrow> adaptive_fec \<Rightarrow> adaptive_fec" where
  "af_window w a = record_loss (fst (snd w)) (record_sent (fst w) a)"

definition af_eval :: "int \<times> int \<times> rat \<Rightarrow> adaptive_fec \<Rightarrow> adaptive_fec" where
  "af_eval w a = snd (snd (af_adjust (snd (snd w)) (af_window w a)))"

fun af_steady :: "int \<Rightarrow> (int \<times> int \<times> rat) list \<Rightarrow> adaptive_fec \<Rightarrow> bool" where
  "af_steady target [] a \<longleftrightarrow> True"
| "af_steady target (w # ws) a \<longleftrightarrow> af_due (snd (snd w)) (af_window w a) \<and> af_target (af_window w a) = target \<and>
     af_steady target ws (af_eval w a)"

definition af_distance :: "int \<Rightarrow> adaptive_fec \<Rightarrow> int" where
  "af_distance t a = (if parity_shards a \<le> t then t - parity_shards a
     else 3 * (parity_shards a - t) - min (consecutive_low a) 2)"

lemma af_eval_closer:
  assumes "af_ok a" "af_due (snd (snd w)) (af_window w a)" "af_target (af_window w a) = t"
  shows "af_ok (af_eval w a) \<and> af_distance t (af_eval w a) \<le> max 0 (af_distance t a - 1)"
proof -
  define b where "b = af_window w a"
  define low where "low = (af_loss_rate b < f64 (2 / 100))"
  have ok: "af_ok b" using assms(1) by (simp add: af_ok_def b_def af_window_def record_loss_def record_sent_def)
  have ev: "af_eval w a = (af_move t low b)\<lparr>window_sent := 0, window_lost := 0, last_adjust_time := snd (snd w)\<rparr>"
    using af_adjust_due[OF ok] assms(2,3) by (simp add: af_eval_def b_def low_def)
  have "af_ok (af_move t low b)"
    using af_move_spec(1)[OF ok] af_target_range[OF af_ok_range[OF ok]] assms(3) by (simp add: b_def)
  moreover have "af_distance t b = af_distance t a"
    by (simp add: af_distance_def b_def af_window_def record_loss_def record_sent_def)
  moreover have "af_distance t (af_move t low b) \<le> max 0 (af_distance t b - 1)"
    using ok by (auto simp: af_distance_def af_move_def af_ok_def Let_def min_def)
  moreover have "af_ok (c\<lparr>window_sent := x, window_lost := y, last_adjust_time := z\<rparr>) \<longleftrightarrow> af_ok c"
    "af_distance t (c\<lparr>window_sent := x, window_lost := y, last_adjust_time := z\<rparr>) = af_distance t c" for c x y z
    by (simp_all add: af_ok_def af_distance_def)
  ultimately show ?thesis by (simp only: ev)
qed

lemma af_distance_zero: "af_ok a \<Longrightarrow> af_distance t a \<le> 0 \<longleftrightarrow> parity_shards a = t"
  by (auto simp: af_distance_def min_def)

text \<open>C18. The controller converges: while the traffic asks for the same number \<open>t\<close> of redundant packets in every
  evaluation, the parity reaches \<open>t\<close> after at most three evaluations for each step between, and stays there.\<close>

theorem af_converges:
  assumes "af_ok a" "af_steady t ws a" "3 * \<bar>parity_shards a - t\<bar> \<le> int (length ws)"
  shows "parity_shards (fold af_eval ws a) = t \<and> af_ok (fold af_eval ws a)"
proof -
  have "af_distance t a \<le> int (length ws)" using assms(1,3) by (auto simp: af_distance_def af_ok_def)
  with assms(1,2) show ?thesis
  proof (induction ws arbitrary: a)
    case Nil
    then show ?case using af_distance_zero[of a t] by simp
  next
    case (Cons w ws)
    have "af_ok (af_eval w a)" "af_distance t (af_eval w a) \<le> int (length ws)"
      using af_eval_closer[of a w t] Cons.prems by auto
    then show ?case using Cons.IH[of "af_eval w a"] Cons.prems(2) by simp
  qed
qed

theorem af_converges_witness:
  "parity_shards (fold af_eval [(60, 0, 10), (60, 0, 20), (60, 0, 30)] (af_init 20 3)) = 2"
proof -
  have f: "f64 0 = 0" "(0 :: rat) < f64 (2 / 100)" "f64 60 = 60" "f64 10 = 10" by code_simp+
  have "af_steady 2 [(60, 0, 10), (60, 0, 20), (60, 0, 30)] (af_init 20 3)"
    using f by (simp add: af_init_def af_window_def af_eval_def record_sent_def record_loss_def af_due_def
        af_adjust_def af_target_def af_loss_rate_def af_move_def af_clamp_def Let_def)
  moreover have "af_ok (af_init 20 3)" by (simp add: af_ok_def af_init_def)
  ultimately show ?thesis by (intro af_converges[THEN conjunct1]) (simp_all add: af_init_def)
qed

section \<open>The controller's answers are valid parameters\<close>

text \<open>Whatever numbers the controller hands out with at most 127 data shards, the parameter parser accepts
  the string \<^verbatim>\<open>"d:p"\<close> the callers print from them, and the resulting table ends with exactly these numbers.\<close>

lemma af_answer_parses:
  assumes "af_ok a" "0 \<le> min_parity a" "max_parity a \<le> data_shards a" "1 \<le> data_shards a" "data_shards a \<le> 127"
    and "af_adjust now a = (changed, (d, p), a')" and len: "length (fp_rs_par par) = 265"
  shows "\<exists>par'. rs_from_str (dec_str (nat d) @ '':'' @ dec_str (nat p)) par = Some par' \<and> rs_wf par' \<and>
    par' = par\<lparr>fp_rs_par := fp_rs_par par', fp_rs_cnt := nat d\<rparr> \<and> get_tail par' = Some (rs_entry (nat d) (nat p))"
proof -
  note k = af_adjust_keeps[OF assms(1,6)]
  have dp: "1 \<le> d" "d \<le> 127" "0 \<le> p" "p \<le> 127" using k assms(2-5) by (auto simp: af_ok_def)
  let ?q = "(nat d, nat p)"
  have vec: "string_to_vec (point_str ?q) '','' = [point_str ?q]"
    using string_to_vec_join[of "[point_str ?q]" "CHR '',''"] by (simp add: point_str_token)
  have parse: "rs_parse [point_str ?q] = Some [?q]"
    using rs_parse_points[of "[?q]"] dp by (simp del: rs_parse.simps add: Suc_le_eq)
  obtain par' where par': "rs_from_str (point_str ?q) par = Some par'" by (simp del: rs_parse.simps add: rs_from_str_def vec parse)
  have cnt: "fp_rs_cnt par' = nat d"
    and ent: "fp_rs_par par' ! (nat d - 1) = rs_entry (nat d) (nat p)"
    by (rule rs_from_str_table[OF len par']; use dp in \<open>auto simp: vec parse simp del: rs_parse.simps\<close>)+
  have "get_tail par' = Some (rs_entry (nat d) (nat p))" using cnt ent dp by (simp add: get_tail_def)
  moreover have "rs_wf par'" by (rule rs_from_str_wf[OF len par'])
  moreover have "par' = par\<lparr>fp_rs_par := fp_rs_par par', fp_rs_cnt := nat d\<rparr>"
    using par' cnt by (auto simp: rs_from_str_def vec parse simp del: rs_parse.simps)
  ultimately show ?thesis using par' by (intro exI[of _ par']) (simp add: point_str_def)
qed

end
