(* ===== verification/Small_Packet.thy ===== *)
theory Small_Packet
  imports Bytes Double
begin

text \<open>
  \<^verbatim>\<open>src/small_packet.h\<close>: small packets are sent at once in several copies; the receiver drops the copies it has
  seen. The keys of the receiver's \<^verbatim>\<open>std::map\<close> are a sorted list. The mutex makes \<^verbatim>\<open>receive\<close> one step.
\<close>

section \<open>Model\<close>

definition SMALL_PKT_MARKER :: u8 where
  "SMALL_PKT_MARKER = 0xFE"

definition SMALL_PKT_HEADER :: nat where
  "SMALL_PKT_HEADER = 5"

definition SMALL_PKT_MAX_SEEN :: nat where
  "SMALL_PKT_MAX_SEEN = 1000"

definition SMALL_PKT_EVICT_TO :: nat where
  "SMALL_PKT_EVICT_TO = 500"

lemma small_pkt_consts [simp]: "SMALL_PKT_HEADER = 5" "SMALL_PKT_MAX_SEEN = 1000" "SMALL_PKT_EVICT_TO = 500"
  by (simp_all add: SMALL_PKT_HEADER_def SMALL_PKT_MAX_SEEN_def SMALL_PKT_EVICT_TO_def)

record small_packet_sender =
  sp_seq :: u32
  sp_threshold :: int
  sp_base_redundancy :: int
  sp_smoothed_loss :: rat
  sp_alpha :: rat

definition sp_init :: "int \<Rightarrow> int \<Rightarrow> small_packet_sender" where
  "sp_init thresh redundancy =
    \<lparr>sp_seq = 0, sp_threshold = thresh, sp_base_redundancy = redundancy, sp_smoothed_loss = 0, sp_alpha = f64 (28 / 100)\<rparr>"

definition update_loss :: "rat \<Rightarrow> small_packet_sender \<Rightarrow> small_packet_sender" where
  "update_loss current_loss_rate s =
     s\<lparr>sp_smoothed_loss := f64 (f64 (f64 (1 - sp_alpha s) * sp_smoothed_loss s) + f64 (sp_alpha s * current_loss_rate))\<rparr>"

definition get_redundancy :: "small_packet_sender \<Rightarrow> int" where
  "get_redundancy s =
    (if sp_smoothed_loss s > f64 (50 / 100) then 5
     else if sp_smoothed_loss s > f64 (35 / 100) then 4
     else if sp_smoothed_loss s > f64 (20 / 100) then 3
     else sp_base_redundancy s)"

text \<open>The empty frame is the return value 0.\<close>

definition build_frame :: "bytes \<Rightarrow> nat \<Rightarrow> small_packet_sender \<Rightarrow> bytes \<times> small_packet_sender" where
  "build_frame payload out_cap s =
    (if int (length payload) \<ge> sp_threshold s then ([], s)
     else if SMALL_PKT_HEADER + length payload > out_cap then ([], s)
     else (let n = sp_seq s in
       ([SMALL_PKT_MARKER, ucast (drop_bit 24 n), ucast (drop_bit 16 n), ucast (drop_bit 8 n), ucast n] @ payload,
        s\<lparr>sp_seq := n + 1\<rparr>)))"

definition is_small_packet :: "bytes \<Rightarrow> bool" where
  "is_small_packet data \<longleftrightarrow> length data \<ge> SMALL_PKT_HEADER \<and> data ! 0 = SMALL_PKT_MARKER"

definition sp_frame_seq :: "bytes \<Rightarrow> u32" where
  "sp_frame_seq data = push_bit 24 (ucast (data ! 1)) OR push_bit 16 (ucast (data ! 2)) OR push_bit 8 (ucast (data ! 3)) OR ucast (data ! 4)"

text \<open>\<^verbatim>\<open>receive\<close>: \<open>None\<close> is the return value -1, otherwise the payload.\<close>

definition sp_receive :: "bytes \<Rightarrow> nat \<Rightarrow> u32 list \<Rightarrow> bytes option \<times> u32 list" where
  "sp_receive data out_cap seen =
    (if \<not> is_small_packet data then (None, seen)
     else (let s = sp_frame_seq data in
       if s \<in> set seen then (None, seen)
       else (let seen = insort s seen;
                 seen = (if length seen > SMALL_PKT_MAX_SEEN then drop (length seen - SMALL_PKT_EVICT_TO) seen else seen)
             in (Some (take out_cap (drop SMALL_PKT_HEADER data)), seen))))"

section \<open>Frames\<close>

lemma sp_frame_seq_split:
  "sp_frame_seq ([m, ucast (drop_bit 24 n), ucast (drop_bit 16 n), ucast (drop_bit 8 n), ucast n] @ payload) = (n :: u32)"
proof (rule bit_word_eqI)
  fix i assume "i < LENGTH(32)"
  then show "bit (sp_frame_seq ([m, ucast (drop_bit 24 n), ucast (drop_bit 16 n), ucast (drop_bit 8 n), ucast n] @ payload)) i = bit n i"
    by (cases "i < 8"; cases "i < 16"; cases "i < 24") (auto simp: sp_frame_seq_def bit_simps not_less)
qed

lemma build_frame_fields:
  assumes "build_frame payload out_cap s = (frame, s')" "frame \<noteq> []"
  shows "is_small_packet frame" "sp_frame_seq frame = sp_seq s" "drop SMALL_PKT_HEADER frame = payload"
    "sp_seq s' = sp_seq s + 1" "length frame \<le> out_cap" "sp_threshold s' = sp_threshold s"
  using assms sp_frame_seq_split[of SMALL_PKT_MARKER "sp_seq s" payload]
  by (auto simp: build_frame_def is_small_packet_def Let_def split: if_splits)

section \<open>Duplicates\<close>

text \<open>\<open>R\<close> are the sequence numbers received so far: the receiver knows at least the 500 highest of them.\<close>

definition sp_ok :: "u32 set \<Rightarrow> u32 list \<Rightarrow> bool" where
  "sp_ok R seen \<longleftrightarrow> finite R \<and> sorted seen \<and> distinct seen \<and> length seen \<le> 1000 \<and> set seen \<subseteq> R \<and>
     (\<forall>s \<in> R. card {t \<in> R. s < t} < 500 \<longrightarrow> s \<in> set seen)"

lemma sorted_drop_card:
  fixes xs :: "'a::linorder list"
  assumes "sorted xs" "distinct xs" "x \<in> set xs" "card {y \<in> set xs. x < y} < k" "k \<le> length xs"
  shows "x \<in> set (drop (length xs - k) xs)"
proof -
  obtain i where i: "i < length xs" "x = xs ! i" using assms(3) by (auto simp: in_set_conv_nth)
  have "length xs - k \<le> i"
  proof (rule ccontr)
    assume "\<not> length xs - k \<le> i"
    then have "k \<le> length xs - Suc i" using assms(5) i by simp
    moreover have "set (drop (Suc i) xs) \<subseteq> {y \<in> set xs. x < y}"
    proof
      fix y assume "y \<in> set (drop (Suc i) xs)"
      then obtain l where "l < length xs - Suc i" "y = xs ! (Suc i + l)" by (auto simp: in_set_conv_nth)
      then have j: "i < Suc i + l" "Suc i + l < length xs" "y = xs ! (Suc i + l)" by auto
      have "xs ! i \<le> xs ! (Suc i + l)" using j assms(1) by (intro sorted_nth_mono) auto
      moreover have "xs ! i \<noteq> xs ! (Suc i + l)" using j i assms(2) by (subst nth_eq_iff_index_eq) auto
      ultimately show "y \<in> {y \<in> set xs. x < y}" using i j nth_mem[OF j(2)] by simp
    qed
    then have "card (set (drop (Suc i) xs)) \<le> card {y \<in> set xs. x < y}" by (intro card_mono) auto
    then have "length xs - Suc i \<le> card {y \<in> set xs. x < y}"
      using distinct_card[of "drop (Suc i) xs"] assms(2) by simp
    ultimately show False using assms(4) by simp
  qed
  then have "x = drop (length xs - k) xs ! (i - (length xs - k))" "i - (length xs - k) < length (drop (length xs - k) xs)"
    using i by auto
  then show ?thesis by (metis nth_mem)
qed

lemma sp_receive_new:
  assumes ok: "sp_ok R seen" and small: "is_small_packet data" and new: "sp_frame_seq data \<notin> set seen"
  shows "\<exists>seen'. sp_receive data out_cap seen = (Some (take out_cap (drop SMALL_PKT_HEADER data)), seen') \<and>
    sp_ok (insert (sp_frame_seq data) R) seen'"
proof -
  let ?s = "sp_frame_seq data" and ?S = "insort (sp_frame_seq data) seen"
  let ?R = "insert ?s R"
  define seen' where "seen' = (if length ?S > 1000 then drop (length ?S - 500) ?S else ?S)"
  have r: "sp_receive data out_cap seen = (Some (take out_cap (drop SMALL_PKT_HEADER data)), seen')"
    using small new by (simp add: sp_receive_def Let_def seen'_def)
  have S: "sorted ?S" "distinct ?S" "set ?S = insert ?s (set seen)" "finite ?R" "set ?S \<subseteq> ?R" "length ?S \<le> 1001"
    using ok new by (auto simp: sp_ok_def distinct_insort sorted_insort set_insort_key)
  have top: "t \<in> set seen'" if t: "t \<in> ?R" "card {u \<in> ?R. t < u} < 500" for t
  proof -
    have "card {u \<in> R. t < u} \<le> card {u \<in> ?R. t < u}" using S(4) by (intro card_mono) auto
    then have tS: "t \<in> set ?S" using t ok S(3) by (auto simp: sp_ok_def)
    have "card {u \<in> set ?S. t < u} \<le> card {u \<in> ?R. t < u}" using S(4,5) by (intro card_mono) auto
    then show ?thesis
      using sorted_drop_card[OF S(1,2) tS, of 500] t tS by (auto simp: seen'_def)
  qed
  have "sp_ok ?R seen'"
    unfolding sp_ok_def using S top
    by (auto simp: seen'_def dest: in_set_dropD)
  then show ?thesis using r by blast
qed

lemma sp_receive_dup:
  assumes "is_small_packet data" "sp_frame_seq data \<in> set seen"
  shows "sp_receive data out_cap seen = (None, seen)"
  using assms by (simp add: sp_receive_def Let_def)

text \<open>The payloads that come out of a sequence of arrivals.\<close>

fun sp_run :: "nat \<Rightarrow> bytes list \<Rightarrow> u32 list \<Rightarrow> bytes list \<times> u32 list" where
  "sp_run out_cap [] seen = ([], seen)"
| "sp_run out_cap (d # ds) seen =
    (let (r, seen) = sp_receive d out_cap seen; (rs, seen) = sp_run out_cap ds seen
     in ((case r of None \<Rightarrow> rs | Some p \<Rightarrow> p # rs), seen))"

lemma sp_run_append:
  "sp_run cap (xs @ ys) seen = (fst (sp_run cap xs seen) @ fst (sp_run cap ys (snd (sp_run cap xs seen))),
     snd (sp_run cap ys (snd (sp_run cap xs seen))))"
  by (induction xs arbitrary: seen) (auto simp: Let_def split: prod.splits option.splits)

lemma sp_run_ok:
  assumes "sp_ok R seen" "\<forall>d \<in> set ds. is_small_packet d"
  shows "sp_ok (R \<union> sp_frame_seq ` set ds) (snd (sp_run cap ds seen))"
  using assms
proof (induction ds arbitrary: R seen)
  case (Cons d ds)
  let ?s = "sp_frame_seq d"
  obtain r seen' where r: "sp_receive d cap seen = (r, seen')" by fastforce
  have "sp_ok (insert ?s R) seen'"
  proof (cases "?s \<in> set seen")
    case True
    then have "seen' = seen" "?s \<in> R" using r sp_receive_dup[of d seen cap] Cons.prems by (auto simp: sp_ok_def)
    then show ?thesis using Cons.prems(1) by (simp add: insert_absorb)
  next
    case False
    then show ?thesis using sp_receive_new[OF Cons.prems(1), of d cap] Cons.prems(2) r by auto
  qed
  from Cons.IH[OF this] show ?case using Cons.prems(2) r by (simp add: Let_def case_prod_beta)
qed simp

text \<open>The receiver's memory is enough to drop copies: after any arrivals \<open>ds\<close>, a frame with a number that has
  not arrived is delivered, and one with a number that has arrived is dropped as long as fewer than 500 different
  higher numbers have arrived. The memory never holds more than 1000 numbers.\<close>

theorem sp_receive_dedup:
  assumes "\<forall>d \<in> set ds. is_small_packet d" "is_small_packet d"
  shows "length (snd (sp_run cap ds [])) \<le> 1000 \<and>
    (sp_frame_seq d \<notin> sp_frame_seq ` set ds \<longrightarrow>
       fst (sp_receive d cap (snd (sp_run cap ds []))) = Some (take cap (drop SMALL_PKT_HEADER d))) \<and>
    (sp_frame_seq d \<in> sp_frame_seq ` set ds \<and> card {t \<in> sp_frame_seq ` set ds. sp_frame_seq d < t} < 500 \<longrightarrow>
       fst (sp_receive d cap (snd (sp_run cap ds []))) = None)"
proof -
  let ?seen = "snd (sp_run cap ds [])" and ?R = "sp_frame_seq ` set ds"
  have ok: "sp_ok ?R ?seen" using sp_run_ok[of "{}" "[]" ds cap] assms(1) by (simp add: sp_ok_def)
  then have "sp_frame_seq d \<notin> ?R \<Longrightarrow> sp_frame_seq d \<notin> set ?seen" by (auto simp: sp_ok_def)
  then show ?thesis
    using ok sp_receive_new[OF ok assms(2), of cap] sp_receive_dup[OF assms(2), of ?seen cap] by (auto simp: sp_ok_def)
qed

theorem sp_receive_dedup_witness:
  "fst (sp_receive [0xFE, 0, 0, 0, 7, 42] 100 (snd (sp_run 100 [[0xFE, 0, 0, 0, 7, 42]] []))) = None \<and>
   fst (sp_receive [0xFE, 0, 0, 0, 8, 43] 100 (snd (sp_run 100 [[0xFE, 0, 0, 0, 7, 42]] []))) = Some [43]"
proof -
  have e: "{t. t = 7 \<and> 7 < t} = ({} :: u32 set)" by auto
  show ?thesis
    using sp_receive_dedup[of "[[0xFE, 0, 0, 0, 7, 42]]" "[0xFE, 0, 0, 0, 7, 42]" 100]
      sp_receive_dedup[of "[[0xFE, 0, 0, 0, 7, 42]]" "[0xFE, 0, 0, 0, 8, 43]" 100]
    by (auto simp: is_small_packet_def SMALL_PKT_MARKER_def sp_frame_seq_def push_bit_eq_mult e)
qed

section \<open>Sender and receiver\<close>

text \<open>The frames a sender builds for a sequence of payloads.\<close>

fun sp_frames :: "nat \<Rightarrow> bytes list \<Rightarrow> small_packet_sender \<Rightarrow> bytes list" where
  "sp_frames cap [] s = []"
| "sp_frames cap (p # ps) s = (let (f, s) = build_frame p cap s in f # sp_frames cap ps s)"

lemma sp_run_copies:
  assumes ok: "sp_ok R seen" and new: "\<forall>t \<in> R. t < sp_frame_seq f" and small: "is_small_packet f"
  shows "\<exists>seen'. sp_run cap (replicate (Suc k) f) seen = ([take cap (drop SMALL_PKT_HEADER f)], seen') \<and>
    sp_ok (insert (sp_frame_seq f) R) seen'"
proof -
  let ?s = "sp_frame_seq f"
  have "?s \<notin> set seen" using ok new by (auto simp: sp_ok_def)
  then obtain seen' where s: "sp_receive f cap seen = (Some (take cap (drop SMALL_PKT_HEADER f)), seen')" "sp_ok (insert ?s R) seen'"
    using sp_receive_new[OF ok small] by blast
  have e: "{t \<in> insert ?s R. ?s < t} = {}" using new by auto
  have "card {t \<in> insert ?s R. ?s < t} < 500" unfolding e by simp
  then have "?s \<in> set seen'" using s(2) unfolding sp_ok_def by blast
  then have "sp_run cap (replicate k f) seen' = ([], seen')"
    using sp_receive_dup[OF small, of seen' cap] by (induction k) auto
  then show ?thesis using s by simp
qed

lemma sp_exactly_once_from:
  assumes "sp_ok R seen" "\<forall>t \<in> R. unat t < N" "N + length ps \<le> 2 ^ 32" "sp_seq s = word_of_nat N"
    and "\<forall>p \<in> set ps. int (length p) < sp_threshold s \<and> 5 + length p \<le> cap" "length ks = length ps"
  shows "fst (sp_run cap (concat (map2 replicate ks (sp_frames cap ps s))) seen) = map fst (filter (\<lambda>(p, k). 0 < k) (zip ps ks))"
  using assms
proof (induction ps arbitrary: ks s N R seen)
  case (Cons p ps)
  obtain k ks' where ks: "ks = k # ks'" using Cons.prems(6) by (cases ks) auto
  obtain f s' where f: "build_frame p cap s = (f, s')" by fastforce
  have "f \<noteq> []" using f Cons.prems(5) by (auto simp: build_frame_def Let_def split: if_splits)
  note F = build_frame_fields[OF f this]
  have seq: "sp_frame_seq f = word_of_nat N" "unat (word_of_nat N :: u32) = N"
    using F(2) Cons.prems(3,4) by (auto simp: unat_of_nat)
  have next_seq: "sp_seq s' = word_of_nat (Suc N)" using F(4) Cons.prems(4) by (simp add: algebra_simps)
  have IH: "fst (sp_run cap (concat (map2 replicate ks' (sp_frames cap ps s'))) seen') = map fst (filter (\<lambda>(p, k). 0 < k) (zip ps ks'))"
    if "sp_ok R' seen'" "\<forall>t \<in> R'. unat t < Suc N" for R' seen'
    using Cons.IH[OF that _ next_seq, of ks'] Cons.prems(3,5,6) ks F(6) by auto
  show ?case
  proof (cases k)
    case 0
    then show ?thesis using IH[OF Cons.prems(1)] Cons.prems(2) ks f by (auto simp: less_Suc_eq)
  next
    case (Suc n)
    have new: "\<forall>t \<in> R. t < sp_frame_seq f" using Cons.prems(2) seq by (auto simp: word_less_nat_alt)
    obtain seen' where s': "sp_run cap (replicate k f) seen = ([take cap (drop SMALL_PKT_HEADER f)], seen')"
      "sp_ok (insert (sp_frame_seq f) R) seen'"
      using sp_run_copies[OF Cons.prems(1) new F(1), of cap n] Suc by blast
    have p: "take cap (drop SMALL_PKT_HEADER f) = p" using F(3) Cons.prems(5) by simp
    have e: "concat (map2 replicate ks (sp_frames cap (p # ps) s)) = replicate k f @ concat (map2 replicate ks' (sp_frames cap ps s'))"
      using ks f by simp
    have "fst (sp_run cap (concat (map2 replicate ks' (sp_frames cap ps s'))) seen') = map fst (filter (\<lambda>(p, k). 0 < k) (zip ps ks'))"
      using IH[OF s'(2)] Cons.prems(2) seq by (auto simp: less_Suc_eq)
    then show ?thesis unfolding e sp_run_append s'(1) p using ks Suc by simp
  qed
qed simp

text \<open>C24. Redundant small packets arrive exactly once: for payloads below the threshold, with any number \<open>k\<close> of
  copies of each frame that survive (zero included) arriving in order, the receiver delivers exactly the payloads of
  which at least one copy arrived, once each, in order and unchanged. At most \<open>2 ^ 32\<close> packets: the numbers must
  not wrap around.\<close>

theorem sp_exactly_once:
  assumes "\<forall>p \<in> set ps. int (length p) < threshold \<and> 5 + length p \<le> cap"
    and "length ks = length ps" "length ps \<le> 2 ^ 32"
  shows "fst (sp_run cap (concat (map2 replicate ks (sp_frames cap ps (sp_init threshold redundancy)))) []) =
    map fst (filter (\<lambda>(p, k). 0 < k) (zip ps ks))"
  using assms by (intro sp_exactly_once_from[of "{}" _ 0]) (auto simp: sp_ok_def sp_init_def)

theorem sp_exactly_once_witness:
  "fst (sp_run 100 (concat (map2 replicate [2, 0, 3] (sp_frames 100 [[1], [2, 2], [3]] (sp_init 256 2)))) []) = [[1], [3]]"
  using sp_exactly_once[of "[[1], [2, 2], [3]]" 256 100 "[2, 0, 3]" 2] by simp

section \<open>Loss average\<close>

definition sp_loss_ok :: "small_packet_sender \<Rightarrow> bool" where
  "sp_loss_ok s \<longleftrightarrow> sp_alpha s = f64 (28 / 100) \<and> 0 \<le> sp_smoothed_loss s \<and> sp_smoothed_loss s \<le> 1"

lemma f64_mono: "0 \<le> x \<Longrightarrow> x \<le> y \<Longrightarrow> f64 x \<le> f64 y"
  using f64_mono_pos[of x y] f64_nonneg[of y] by (cases "x = 0") auto

lemma f64_idem_alpha:
  "f64 (f64 (28 / 100)) = f64 (28 / 100)" "f64 (f64 (1 - f64 (28 / 100))) = f64 (1 - f64 (28 / 100))"
  "f64 (f64 (1 - f64 (28 / 100)) + f64 (28 / 100)) = 1" "0 \<le> f64 (28 / 100)" "0 \<le> f64 (1 - f64 (28 / 100))"
  by code_simp+

text \<open>The moving average of the loss stays between 0 and 1 under rounding, for loss rates between 0 and 1, and
  so the number of copies is the configured one or 3, 4 or 5.\<close>

theorem update_loss_bounds:
  assumes "sp_loss_ok s" "0 \<le> rate" "rate \<le> 1"
  shows "sp_loss_ok (update_loss rate s) \<and> get_redundancy (update_loss rate s) \<in> {sp_base_redundancy s, 3, 4, 5}"
proof -
  let ?a = "f64 (28 / 100)" and ?b = "f64 (1 - f64 (28 / 100))"
  let ?x = "f64 (?b * sp_smoothed_loss s)" and ?y = "f64 (?a * rate)"
  have s: "sp_alpha s = ?a" "0 \<le> sp_smoothed_loss s" "sp_smoothed_loss s \<le> 1" using assms(1) by (auto simp: sp_loss_ok_def)
  have "0 \<le> ?b * sp_smoothed_loss s" "?b * sp_smoothed_loss s \<le> ?b" "0 \<le> ?a * rate" "?a * rate \<le> ?a"
    using s assms(2,3) f64_idem_alpha(4,5) by (auto intro: mult_left_le)
  then have xy: "0 \<le> ?x" "?x \<le> ?b" "0 \<le> ?y" "?y \<le> ?a"
    using f64_mono[of "?b * sp_smoothed_loss s" ?b] f64_mono[of "?a * rate" ?a] f64_idem_alpha(1,2) by (simp_all add: f64_nonneg)
  then have "0 \<le> f64 (?x + ?y)" "f64 (?x + ?y) \<le> f64 (?b + ?a)" by (auto intro!: f64_nonneg f64_mono)
  then have "0 \<le> f64 (?x + ?y)" "f64 (?x + ?y) \<le> 1" using f64_idem_alpha(3) by simp_all
  then show ?thesis using s by (simp add: sp_loss_ok_def update_loss_def get_redundancy_def)
qed

theorem update_loss_bounds_witness:
  "sp_loss_ok (update_loss (1 / 2) (sp_init 256 2)) \<and> get_redundancy (update_loss (1 / 2) (sp_init 256 2)) \<in> {2, 3, 4, 5}"
  using update_loss_bounds[of "sp_init 256 2" "1 / 2"] by (simp add: sp_loss_ok_def sp_init_def)

end
