(* ===== verification/Pacing.thy ===== *)
theory Pacing
  imports Double "HOL-Library.Signed_Division"
begin

text \<open>
  \<^verbatim>\<open>src/pacing.h\<close>: the congestion controller that estimates bandwidth and round-trip time and derives the
  congestion window and the pacing rate. Every method holds the mutex or runs on the one thread that owns the
  object, so each is one step. \<^verbatim>\<open>int64_t\<close> values are integers (their overflow is undefined in C++), \<^verbatim>\<open>double\<close>
  values rounded rationals. The readings of the clock are arguments: \<^verbatim>\<open>on_ack\<close> reads it once itself and once in
  \<^verbatim>\<open>update_state\<close>.
\<close>

section \<open>Model\<close>

datatype bbr_state = BBR_STARTUP | BBR_DRAIN | BBR_PROBE_BW | BBR_PROBE_RTT

definition dbl :: "int \<Rightarrow> rat" where
  "dbl n = f64 (of_int n)"

definition BBR_STARTUP_GAIN :: rat where
  "BBR_STARTUP_GAIN = f64 (289 / 100)"

definition BBR_DRAIN_GAIN :: rat where
  "BBR_DRAIN_GAIN = f64 (35 / 100)"

definition BBR_PROBE_RTT_CWND :: int where
  "BBR_PROBE_RTT_CWND = 4 * 1500"

definition BBR_INIT_CWND :: int where
  "BBR_INIT_CWND = 32768"

definition BBR_MIN_CWND :: int where
  "BBR_MIN_CWND = 4096"

definition BBR_MIN_RTT_WINDOW_S :: rat where
  "BBR_MIN_RTT_WINDOW_S = 10"

definition BBR_PROBE_RTT_HOLD_S :: rat where
  "BBR_PROBE_RTT_HOLD_S = f64 (2 / 10)"

definition BBR_PROBE_BW_GAINS :: "rat list" where
  "BBR_PROBE_BW_GAINS = [125 / 100, 75 / 100, 1, 1, 1, 1, 1, 1]"

record pacing =
  max_bw :: int
  min_rtt_s :: rat
  smoothed_rtt_s :: rat
  bytes_in_flight :: int
  delivered :: int
  delivered_time_s :: rat
  cwnd :: int
  pacing_rate :: int
  bbr :: bbr_state
  cycle_idx :: nat
  probe_rtt_start_s :: rat
  min_rtt_expiry_s :: rat
  probe_rtt_done :: bool
  prior_cwnd :: int
  bw_samples :: "int list"
  bw_sample_idx :: nat
  max_bandwidth :: int
  enabled :: bool

definition now_s :: "int \<Rightarrow> int \<Rightarrow> rat" where
  "now_s tv_sec tv_nsec = f64 (dbl tv_sec + f64 (dbl tv_nsec * f64 (1 / 10 ^ 9)))"

definition pc_init :: "int \<Rightarrow> rat \<Rightarrow> rat \<Rightarrow> pacing" where
  "pc_init max_bw_limit now1 now2 = \<lparr>max_bw = 0, min_rtt_s = 10 ^ 9, smoothed_rtt_s = 0, bytes_in_flight = 0, delivered = 0,
     delivered_time_s = now1, cwnd = BBR_INIT_CWND, pacing_rate = 0, bbr = BBR_STARTUP, cycle_idx = 0,
     probe_rtt_start_s = 0, min_rtt_expiry_s = f64 (now2 + BBR_MIN_RTT_WINDOW_S), probe_rtt_done = False, prior_cwnd = 0,
     bw_samples = replicate 10 0, bw_sample_idx = 0, max_bandwidth = max_bw_limit, enabled = True\<rparr>"

text \<open>\<^verbatim>\<open>wait\<close>: the sleeps in microseconds and the state. Nothing else changes the object while its thread sleeps.\<close>

fun pc_wait_loop :: "nat \<Rightarrow> pacing \<Rightarrow> int list" where
  "pc_wait_loop 0 p = []"
| "pc_wait_loop (Suc left) p = (if bytes_in_flight p > cwnd p then 1000 # pc_wait_loop left p else [])"

definition pc_wait :: "int \<Rightarrow> pacing \<Rightarrow> int list \<times> pacing" where
  "pc_wait sz p =
    (if \<not> enabled p then ([], p)
     else (let loops = pc_wait_loop 500 p;
               p = p\<lparr>bytes_in_flight := bytes_in_flight p + sz\<rparr>;
               delay_us = f64 (f64 (dbl sz / dbl (pacing_rate p)) * 10 ^ 6)
           in (loops @ (if pacing_rate p > 0 \<and> delay_us > 500 then [trunc delay_us] else []), p)))"

definition bdp :: "pacing \<Rightarrow> int" where
  "bdp p = (if max_bw p = 0 \<or> min_rtt_s p \<ge> 10 ^ 8 then BBR_INIT_CWND else trunc (f64 (dbl (max_bw p) * min_rtt_s p)))"

definition update_state :: "rat \<Rightarrow> pacing \<Rightarrow> pacing" where
  "update_state t p =
    (case bbr p of
       BBR_STARTUP \<Rightarrow>
         (if bw_sample_idx p \<ge> 3 then
            (let recent = bw_samples p ! ((bw_sample_idx p - 1) mod 10); prev = bw_samples p ! ((bw_sample_idx p - 2) mod 10)
             in if prev > 0 \<and> f64 (dbl recent / dbl prev) < 125 / 100 then p\<lparr>bbr := BBR_DRAIN, prior_cwnd := cwnd p\<rparr> else p)
          else p)
     | BBR_DRAIN \<Rightarrow> (if bytes_in_flight p \<le> bdp p then p\<lparr>bbr := BBR_PROBE_BW, cycle_idx := 0\<rparr> else p)
     | BBR_PROBE_BW \<Rightarrow>
         (let p = p\<lparr>cycle_idx := cycle_idx p + 1\<rparr> in
          if t > min_rtt_expiry_s p
          then p\<lparr>bbr := BBR_PROBE_RTT, probe_rtt_start_s := t, prior_cwnd := cwnd p, probe_rtt_done := False\<rparr> else p)
     | BBR_PROBE_RTT \<Rightarrow>
         (let p = (if \<not> probe_rtt_done p \<and> bytes_in_flight p \<le> BBR_PROBE_RTT_CWND
                   then p\<lparr>probe_rtt_done := True, probe_rtt_start_s := t\<rparr> else p)
          in if probe_rtt_done p \<and> f64 (t - probe_rtt_start_s p) > BBR_PROBE_RTT_HOLD_S
             then p\<lparr>min_rtt_expiry_s := f64 (t + BBR_MIN_RTT_WINDOW_S), bbr := BBR_PROBE_BW, cycle_idx := 0, cwnd := prior_cwnd p\<rparr>
             else p))"

definition bbr_gain :: "pacing \<Rightarrow> rat" where
  "bbr_gain p = (case bbr p of BBR_STARTUP \<Rightarrow> BBR_STARTUP_GAIN | BBR_DRAIN \<Rightarrow> BBR_DRAIN_GAIN
     | BBR_PROBE_BW \<Rightarrow> BBR_PROBE_BW_GAINS ! (cycle_idx p mod 8) | BBR_PROBE_RTT \<Rightarrow> 1)"

definition update_cwnd :: "pacing \<Rightarrow> pacing" where
  "update_cwnd p =
    (if bbr p = BBR_PROBE_RTT
     then p\<lparr>cwnd := BBR_PROBE_RTT_CWND, pacing_rate := trunc (f64 (dbl (max_bw p) * (1 / 2)))\<rparr>
     else (let gain = bbr_gain p; c = trunc (f64 (dbl (bdp p) * gain));
               p = p\<lparr>cwnd := (if c < BBR_MIN_CWND then BBR_MIN_CWND else c)\<rparr>;
               r = trunc (f64 (dbl (max_bw p) * gain))
           in p\<lparr>pacing_rate := (if max_bandwidth p > 0 \<and> r > max_bandwidth p then max_bandwidth p else r)\<rparr>))"

definition ack_rtt :: "rat \<Rightarrow> rat \<Rightarrow> pacing \<Rightarrow> pacing" where
  "ack_rtt t rtt_s p =
    (let p = p\<lparr>smoothed_rtt_s := (if smoothed_rtt_s p \<le> 0 then rtt_s
                 else f64 (f64 (smoothed_rtt_s p * (875 / 1000)) + f64 (rtt_s * (125 / 1000))))\<rparr>
     in if rtt_s < min_rtt_s p \<or> t > min_rtt_expiry_s p
        then p\<lparr>min_rtt_s := rtt_s, min_rtt_expiry_s := f64 (t + BBR_MIN_RTT_WINDOW_S)\<rparr> else p)"

definition ack_bw :: "rat \<Rightarrow> int \<Rightarrow> pacing \<Rightarrow> pacing" where
  "ack_bw t bytes p =
    (let elapsed = f64 (t - delivered_time_s p);
         p = (if elapsed > f64 (1 / 1000)
              then (let samples = (bw_samples p)[bw_sample_idx p mod 10 := trunc (f64 (dbl bytes / elapsed))]
                    in p\<lparr>bw_samples := samples, bw_sample_idx := bw_sample_idx p + 1,
                         max_bw := fold (\<lambda>i m. if samples ! i > m then samples ! i else m) [0..<10] 0\<rparr>)
              else p)
     in p\<lparr>delivered := delivered p + bytes, delivered_time_s := t\<rparr>)"

definition on_ack :: "rat \<Rightarrow> rat \<Rightarrow> int \<Rightarrow> rat \<Rightarrow> pacing \<Rightarrow> pacing" where
  "on_ack t1 t2 bytes rtt_s p =
    (let p = p\<lparr>bytes_in_flight := bytes_in_flight p - bytes\<rparr>;
         p = (if bytes_in_flight p < 0 then p\<lparr>bytes_in_flight := 0\<rparr> else p);
         p = (if rtt_s > 0 then ack_bw t1 bytes (ack_rtt t1 rtt_s p) else p)
     in update_cwnd (update_state t2 p))"

definition on_loss :: "pacing \<Rightarrow> pacing" where
  "on_loss p = (let c = (cwnd p * 85) sdiv 100 in p\<lparr>cwnd := (if c < BBR_MIN_CWND then BBR_MIN_CWND else c)\<rparr>)"

section \<open>The state machine\<close>

text \<open>What happens to the controller, with the state after it.\<close>

datatype pc_event = Wait int | Ack rat rat int rat | Loss

fun pc_event_ok :: "pc_event \<Rightarrow> bool" where
  "pc_event_ok (Wait sz) = (0 \<le> sz)"
| "pc_event_ok (Ack t1 t2 bytes rtt) = (0 \<le> bytes)"
| "pc_event_ok Loss = True"

fun pc_step :: "pc_event \<Rightarrow> pacing \<Rightarrow> pacing" where
  "pc_step (Wait sz) p = snd (pc_wait sz p)"
| "pc_step (Ack t1 t2 bytes rtt) p = on_ack t1 t2 bytes rtt p"
| "pc_step Loss p = on_loss p"

inductive pc_reach :: "int \<Rightarrow> pacing \<Rightarrow> bool" for limit where
  start: "pc_reach limit (pc_init limit now1 now2)"
| step: "pc_reach limit p \<Longrightarrow> pc_event_ok e \<Longrightarrow> pc_reach limit (pc_step e p)"

definition bbr_edge :: "bbr_state \<Rightarrow> bbr_state \<Rightarrow> bool" where
  "bbr_edge a b \<longleftrightarrow> a = b \<or> (a, b) \<in> {(BBR_STARTUP, BBR_DRAIN), (BBR_DRAIN, BBR_PROBE_BW), (BBR_PROBE_BW, BBR_PROBE_RTT), (BBR_PROBE_RTT, BBR_PROBE_BW)}"

definition pc_inv :: "int \<Rightarrow> pacing \<Rightarrow> bool" where
  "pc_inv limit p \<longleftrightarrow> BBR_MIN_CWND \<le> cwnd p \<and> 0 \<le> bytes_in_flight p \<and> length (bw_samples p) = 10 \<and>
     max_bw p = Max (insert 0 (set (bw_samples p))) \<and> 0 \<le> pacing_rate p \<and> max_bandwidth p = limit \<and>
     (0 < limit \<longrightarrow> bbr p \<noteq> BBR_PROBE_RTT \<longrightarrow> pacing_rate p \<le> limit)"

lemma trunc_nonneg: "0 \<le> x \<Longrightarrow> 0 \<le> trunc x"
  by (simp add: trunc_def)

lemma dbl_nonneg: "0 \<le> n \<Longrightarrow> 0 \<le> dbl n"
  by (simp add: dbl_def f64_nonneg)

lemma gain_nonneg: "0 \<le> bbr_gain p"
proof -
  have "0 \<le> BBR_PROBE_BW_GAINS ! (cycle_idx p mod 8)"
  proof -
    have "BBR_PROBE_BW_GAINS ! (cycle_idx p mod 8) \<in> set BBR_PROBE_BW_GAINS"
      by (intro nth_mem) (simp add: BBR_PROBE_BW_GAINS_def)
    then show ?thesis by (auto simp: BBR_PROBE_BW_GAINS_def)
  qed
  then show ?thesis
    by (auto simp: bbr_gain_def BBR_STARTUP_GAIN_def BBR_DRAIN_GAIN_def f64_nonneg split: bbr_state.splits)
qed

lemma fold_max_samples:
  assumes "length xs = 10"
  shows "fold (\<lambda>i m. if xs ! i > m then xs ! i else m) [0..<10] 0 = Max (insert 0 (set (xs :: int list)))"
proof -
  have "(\<lambda>i m. if xs ! i > m then xs ! i else m) = (\<lambda>i. max (xs ! i))" by (auto simp: fun_eq_iff max_def)
  then have "fold (\<lambda>i m. if xs ! i > m then xs ! i else m) [0..<10] 0 = fold max (map ((!) xs) [0..<10]) 0"
    by (simp add: fold_map comp_def)
  also have "map ((!) xs) [0..<10] = xs" using assms by (metis map_nth)
  also have "fold max xs 0 = Max (insert 0 (set xs))" by (simp add: Max.set_eq_fold [symmetric])
  finally show ?thesis .
qed

lemma update_state_keeps:
  "bytes_in_flight (update_state t p) = bytes_in_flight p" "bw_samples (update_state t p) = bw_samples p"
  "max_bw (update_state t p) = max_bw p" "max_bandwidth (update_state t p) = max_bandwidth p"
  "bbr_edge (bbr p) (bbr (update_state t p))"
  by (auto simp: update_state_def bbr_edge_def Let_def split: bbr_state.splits)

lemma update_cwnd_inv:
  assumes "0 \<le> bytes_in_flight p" "length (bw_samples p) = 10" "max_bw p = Max (insert 0 (set (bw_samples p)))"
  shows "pc_inv (max_bandwidth p) (update_cwnd p) \<and> bbr (update_cwnd p) = bbr p"
proof -
  have "0 \<le> max_bw p" using assms(3) by simp
  then have "0 \<le> trunc (f64 (dbl (max_bw p) * bbr_gain p))" "0 \<le> trunc (f64 (dbl (max_bw p) / 2))"
    by (auto intro!: trunc_nonneg f64_nonneg simp: dbl_nonneg gain_nonneg)
  then show ?thesis
    using assms by (auto simp: update_cwnd_def pc_inv_def Let_def BBR_MIN_CWND_def BBR_PROBE_RTT_CWND_def)
qed

lemma on_ack_inv:
  assumes "pc_inv limit p"
  shows "pc_inv limit (on_ack t1 t2 bytes rtt p) \<and> bbr_edge (bbr p) (bbr (on_ack t1 t2 bytes rtt p))"
proof -
  define q where "q = (let p = p\<lparr>bytes_in_flight := bytes_in_flight p - bytes\<rparr>;
         p = (if bytes_in_flight p < 0 then p\<lparr>bytes_in_flight := 0\<rparr> else p)
     in if rtt > 0 then ack_bw t1 bytes (ack_rtt t1 rtt p) else p)"
  have q: "0 \<le> bytes_in_flight q" "length (bw_samples q) = 10" "max_bw q = Max (insert 0 (set (bw_samples q)))"
      "max_bandwidth q = limit" "bbr q = bbr p"
    using assms by (auto simp: q_def pc_inv_def ack_bw_def ack_rtt_def Let_def fold_max_samples)
  have "on_ack t1 t2 bytes rtt p = update_cwnd (update_state t2 q)" by (simp add: on_ack_def q_def Let_def)
  then show ?thesis
    using update_cwnd_inv[of "update_state t2 q"] update_state_keeps[where t = t2 and p = q] q by simp
qed

lemma pc_step_inv:
  assumes "pc_inv limit p" "pc_event_ok e"
  shows "pc_inv limit (pc_step e p) \<and> bbr_edge (bbr p) (bbr (pc_step e p))"
proof (cases e)
  case (Ack t1 t2 bytes rtt)
  then show ?thesis using on_ack_inv[OF assms(1)] by simp
qed (use assms in \<open>auto simp: pc_wait_def on_loss_def pc_inv_def bbr_edge_def Let_def\<close>)

lemma pc_init_inv: "pc_inv limit (pc_init limit now1 now2)"
  by (simp add: pc_inv_def pc_init_def BBR_MIN_CWND_def BBR_INIT_CWND_def)





section \<open>How long the sender is held up\<close>

lemma pc_wait_loop_all: "pc_wait_loop n p = (if bytes_in_flight p > cwnd p then replicate n 1000 else [])"
  by (induction n) auto



end
