(* ===== verification/Fecraw.thy ===== *)
theory Fecraw
  imports Tun Adaptive Small_Packet Pacing
begin

text \<open>
  The event handlers of \<^verbatim>\<open>src/fecraw_client.cpp\<close> and \<^verbatim>\<open>src/fecraw_server.cpp\<close>, which join the FEC layer with the
  tunnel device on one side and the bridge to the raw transport on the other. The static variables of each file are
  the record \<open>fecraw\<close>; what a handler does to the outside is a list of actions. What a handler reads from the outside
  (clock, random numbers, uninitialised memory) is the record \<open>fr_env\<close>. \<open>None\<close> is an aborted process.
\<close>

section \<open>State, configuration and environment\<close>

record fecraw_config =
  fr_flow :: flow_config
  fr_cook :: cook_config
  fr_random_drop :: u32
  fr_mssfix :: int
  fr_keep_reconnect :: bool
  fr_fec_adaptive :: bool
  fr_small_packet_threshold :: int
  fr_small_packet_redundancy :: int
  fr_enable_pacing :: bool

record ('a, 'd) fecraw =
  fr_feed_back :: bool
  fr_raw_dest :: "'a dest"
  fr_tun_dest :: "'a dest"
  fr_conn :: "'d conn_info"
  fr_delay :: "'a delay_manager"
  fr_adaptive :: adaptive_fec
  fr_sp_send :: small_packet_sender
  fr_sp_recv :: "u32 list"
  fr_pacing :: pacing
  fr_prev_fec_input :: u64
  fr_prev_fec_output :: u64
  fr_last_keep_alive :: u64

text \<open>Readings of the millisecond clock, the microsecond clock and the monotonic clock in seconds.\<close>

record fr_env =
  ev_now_ms :: u64
  ev_now :: u64
  ev_sec1 :: rat
  ev_sec2 :: rat
  ev_rnd :: "nat \<Rightarrow> u32"
  ev_drop :: "nat \<Rightarrow> u32"
  ev_iv :: "nat \<Rightarrow> bytes"
  ev_mem :: "nat \<Rightarrow> u8"
  ev_stale :: "nat \<Rightarrow> bytes"

text \<open>\<open>Handle\<close> is \<^verbatim>\<open>delay_data_t::handle\<close>, which is \<^verbatim>\<open>my_send\<close>; \<open>Bridge\<close> is \<^verbatim>\<open>send\<close> on the bridge, \<open>Tun_write\<close> is
  \<^verbatim>\<open>write\<close> on the device, \<open>Sleep\<close> is \<^verbatim>\<open>usleep\<close> and \<open>Exit\<close> is \<^verbatim>\<open>myexit\<close>.\<close>

datatype 'a fr_act = Handle "'a delay_data" | Bridge bytes | Tun_write bytes | Sleep int | Exit

section \<open>From the bridge to the device\<close>

text \<open>What both sides do with the payload of a packet: acknowledge it to the pacer, then the small packets go to the
  device and the others to the decoder.\<close>

definition fr_deliver :: "fecraw_config \<Rightarrow> fr_env \<Rightarrow> bytes \<Rightarrow> ('a, 'd) fecraw \<Rightarrow> ('a fr_act list \<times> ('a, 'd) fecraw) option" where
  "fr_deliver cfg ev data st = do {
     let st = (if fr_enable_pacing cfg
         then (let p = fr_pacing st in
           st\<lparr>fr_pacing := on_ack (ev_sec1 ev) (ev_sec2 ev) (int (length data))
             (if smoothed_rtt_s p > 0 then smoothed_rtt_s p else f64 (5 / 100)) p\<rparr>)
         else st);
     if fr_small_packet_threshold cfg > 0 \<and> is_small_packet data then
       (let (r, seen) = sp_receive data buf_len (fr_sp_recv st)
        in Some (case r of Some payload \<Rightarrow> if payload \<noteq> [] then [Tun_write payload] else [] | None \<Rightarrow> [], st\<lparr>fr_sp_recv := seen\<rparr>))
     else do {
       (sent, c, dm) \<leftarrow> from_fec_to_normal2 (fr_flow cfg) (fr_random_drop cfg) (ev_now ev) (ev_stale ev) (ev_drop ev)
         (fr_tun_dest st) data (fr_conn st, fr_delay st);
       Some (map Handle sent, st\<lparr>fr_conn := c, fr_delay := dm\<rparr>)
     }
   }"

text \<open>\<^verbatim>\<open>bridge_recv_cb\<close>: \<open>None\<close> for the datagram is an error of \<^verbatim>\<open>recv\<close>; at most one byte more than the limit is read.\<close>

definition fr_unwrap :: "fecraw_config \<Rightarrow> fr_env \<Rightarrow> bytes option \<Rightarrow> (u8 \<times> bytes) option" where
  "fr_unwrap cfg ev datagram = do {
     data \<leftarrow> datagram;
     if length data > max_data_len \<or> data = [] then None
     else do {
       data \<leftarrow> de_cook (fr_cook cfg) (ev_mem ev) data;
       get_header data
     }
   }"

definition client_bridge_recv_cb :: "fecraw_config \<Rightarrow> fr_env \<Rightarrow> bytes option \<Rightarrow> ('a, 'd) fecraw \<Rightarrow> ('a fr_act list \<times> ('a, 'd) fecraw) option" where
  "client_bridge_recv_cb cfg ev datagram st =
    (case fr_unwrap cfg ev datagram of
       None \<Rightarrow> Some ([], st)
     | Some (header, data) \<Rightarrow>
         if header = header_keep_alive then Some ([], st)
         else if header = header_reject then
           (if \<not> fr_keep_reconnect cfg then Some ([Exit], st) else Some ([], st\<lparr>fr_feed_back := False\<rparr>))
         else if header = header_normal then fr_deliver cfg ev data (st\<lparr>fr_feed_back := True\<rparr>)
         else Some ([], st))"

definition server_bridge_recv_cb :: "fecraw_config \<Rightarrow> fr_env \<Rightarrow> bytes option \<Rightarrow> ('a, 'd) fecraw \<Rightarrow> ('a fr_act list \<times> ('a, 'd) fecraw) option" where
  "server_bridge_recv_cb cfg ev datagram st =
    (case fr_unwrap cfg ev datagram of
       None \<Rightarrow> Some ([], st)
     | Some (header, data) \<Rightarrow>
         if header = header_keep_alive then Some ([], st)
         else if header = header_new_connect \<or> header = header_normal then fr_deliver cfg ev data (st\<lparr>fr_feed_back := True\<rparr>)
         else Some ([], st))"

section \<open>From the device to the bridge\<close>

definition fr_copies :: "fecraw_config \<Rightarrow> fr_env \<Rightarrow> int \<Rightarrow> bytes \<Rightarrow> bytes list option" where
  "fr_copies cfg ev redundancy frame =
     fold_option (\<lambda>i out. map_option (\<lambda>c. out @ [c]) (do_cook (fr_cook cfg) (ev_mem ev) (ev_iv ev i) frame)) [0..<nat redundancy] []"

definition fr_send :: "fecraw_config \<Rightarrow> fr_env \<Rightarrow> u8 \<Rightarrow> bytes option \<Rightarrow> ('a, 'd) fecraw \<Rightarrow> ('a fr_act list \<times> ('a, 'd) fecraw) option" where
  "fr_send cfg ev header data st = do {
     (sent, c, dm) \<leftarrow> from_normal_to_fec2 (fr_flow cfg) (fr_random_drop cfg) (ev_now ev) (ev_rnd ev) (ev_drop ev)
       (fr_raw_dest st) data header (fr_conn st, fr_delay st);
     Some (map Handle sent, st\<lparr>fr_conn := c, fr_delay := dm\<rparr>)
   }"

definition fr_tun_fd_cb :: "fecraw_config \<Rightarrow> fr_env \<Rightarrow> u8 \<Rightarrow> bytes option \<Rightarrow> ('a, 'd) fecraw \<Rightarrow> ('a fr_act list \<times> ('a, 'd) fecraw) option" where
  "fr_tun_fd_cb cfg ev header packet st =
    (case packet of None \<Rightarrow> Some ([], st)
     | Some data \<Rightarrow>
         if length data > max_data_len then Some ([], st)
         else do {
           let data = snd (do_mssfix (fr_mssfix cfg) data);
           let (naps, pc) = (if fr_enable_pacing cfg then pc_wait (int (length data)) (fr_pacing st) else ([], fr_pacing st));
           let st = st\<lparr>fr_pacing := pc\<rparr>;
           let (frame, sp) = (if fr_small_packet_threshold cfg > 0 \<and> int (length data) < fr_small_packet_threshold cfg
               then build_frame data buf_len (fr_sp_send st) else ([], fr_sp_send st));
           let st = st\<lparr>fr_sp_send := sp\<rparr>;
           if frame \<noteq> [] then do {
             copies \<leftarrow> fr_copies cfg ev (get_redundancy sp) frame;
             Some (map Sleep naps @ map Bridge copies, st)
           } else do {
             (acts, st) \<leftarrow> fr_send cfg ev header (Some data) st;
             Some (map Sleep naps @ acts, st)
           }
         })"

definition client_header :: "('a, 'd) fecraw \<Rightarrow> u8" where
  "client_header st = (if fr_feed_back st then header_normal else header_new_connect)"

definition client_tun_fd_cb :: "fecraw_config \<Rightarrow> fr_env \<Rightarrow> bytes option \<Rightarrow> ('a, 'd) fecraw \<Rightarrow> ('a fr_act list \<times> ('a, 'd) fecraw) option" where
  "client_tun_fd_cb cfg ev packet st = fr_tun_fd_cb cfg ev (client_header st) packet st"

definition server_tun_fd_cb :: "fecraw_config \<Rightarrow> fr_env \<Rightarrow> bytes option \<Rightarrow> ('a, 'd) fecraw \<Rightarrow> ('a fr_act list \<times> ('a, 'd) fecraw) option" where
  "server_tun_fd_cb cfg ev packet st = fr_tun_fd_cb cfg ev header_normal packet st"

definition client_fec_encode_cb :: "fecraw_config \<Rightarrow> fr_env \<Rightarrow> ('a, 'd) fecraw \<Rightarrow> ('a fr_act list \<times> ('a, 'd) fecraw) option" where
  "client_fec_encode_cb cfg ev st = fr_send cfg ev (client_header st) None st"

definition server_fec_encode_cb :: "fecraw_config \<Rightarrow> fr_env \<Rightarrow> ('a, 'd) fecraw \<Rightarrow> ('a fr_act list \<times> ('a, 'd) fecraw) option" where
  "server_fec_encode_cb cfg ev st = fr_send cfg ev header_normal None st"

section \<open>Timers\<close>

text \<open>The conversion of a counter to \<^verbatim>\<open>int\<close>, and the decimal form of an \<^verbatim>\<open>int\<close>.\<close>

definition int_of_u64 :: "u64 \<Rightarrow> int" where
  "int_of_u64 w = sint (ucast w :: 32 word)"

definition int_str :: "int \<Rightarrow> string" where
  "int_str n = (if n < 0 then ''-'' @ dec_str (nat (- n)) else dec_str (nat n))"

text \<open>The adaptive part of \<^verbatim>\<open>conn_timer_cb\<close>: what the counters say since the last time is recorded, then the new
  parameters go straight into the encoder; a string the parser rejects leaves it as it is.\<close>

definition fr_measure :: "('a, 'd) fecraw \<Rightarrow> ('a, 'd) fecraw" where
  "fr_measure st =
    (let f = fec_to_normal (ci_stat (fr_conn st));
         delta_in = input_packet_num f - fr_prev_fec_input st; delta_out = output_packet_num f - fr_prev_fec_output st;
         st = st\<lparr>fr_prev_fec_input := input_packet_num f, fr_prev_fec_output := output_packet_num f\<rparr>
     in if delta_in > 0 then
          (let sent = int_of_u64 delta_in;
               recovered = (if sent > int_of_u64 delta_out then sent - int_of_u64 delta_out else 0);
               a = record_sent sent (fr_adaptive st)
           in st\<lparr>fr_adaptive := (if recovered > 0 then record_loss recovered a else a)\<rparr>)
        else st)"

definition set_rs_par :: "string \<Rightarrow> 'd conn_info \<Rightarrow> 'd conn_info" where
  "set_rs_par s c = (let e = ci_enc c in
     c\<lparr>ci_enc := e\<lparr>fe_par := (case rs_from_str s (fe_par e) of None \<Rightarrow> fe_par e | Some par \<Rightarrow> par)\<rparr>\<rparr>)"

definition fr_adapt :: "rat \<Rightarrow> ('a, 'd) fecraw \<Rightarrow> ('a, 'd) fecraw" where
  "fr_adapt now st =
    (let st = fr_measure st; (changed, (d, p), a) = af_adjust now (fr_adaptive st); st = st\<lparr>fr_adaptive := a\<rparr>
     in if changed then st\<lparr>fr_conn := set_rs_par (int_str d @ '':'' @ int_str p) (fr_conn st)\<rparr> else st)"

definition fr_keep_alive :: "fecraw_config \<Rightarrow> fr_env \<Rightarrow> ('a, 'd) fecraw \<Rightarrow> ('a fr_act list \<times> ('a, 'd) fecraw) option" where
  "fr_keep_alive cfg ev st = do {
     (sent, t, dm) \<leftarrow> do_keep_alive (fr_random_drop cfg) (ev_drop ev 0) (ev_now_ms ev) (fr_raw_dest st) (fr_last_keep_alive st, fr_delay st);
     Some (map Handle sent, st\<lparr>fr_last_keep_alive := t, fr_delay := dm\<rparr>)
   }"

definition fr_report :: "(stat \<Rightarrow> u64 list option \<times> stat) \<Rightarrow> ('a, 'd) fecraw \<Rightarrow> ('a, 'd) fecraw" where
  "fr_report rep st = st\<lparr>fr_conn := (fr_conn st)\<lparr>ci_stat := snd (rep (ci_stat (fr_conn st)))\<rparr>\<rparr>"

definition client_conn_timer_cb :: "fecraw_config \<Rightarrow> u64 \<Rightarrow> fr_env \<Rightarrow> ('a, 'd) fecraw \<Rightarrow> ('a fr_act list \<times> ('a, 'd) fecraw) option" where
  "client_conn_timer_cb cfg report_interval ev st = do {
     let st = fr_report (report_as_client report_interval (ev_now_ms ev)) st;
     (acts, st) \<leftarrow> (if fr_feed_back st then fr_keep_alive cfg ev st else Some ([], st));
     Some (acts, if fr_fec_adaptive cfg then fr_adapt (ev_sec1 ev) st else st)
   }"

definition server_conn_timer_cb :: "fecraw_config \<Rightarrow> u64 \<Rightarrow> fr_env \<Rightarrow> ('a, 'd) fecraw \<Rightarrow> ('a fr_act list \<times> ('a, 'd) fecraw) option" where
  "server_conn_timer_cb cfg report_interval ev st = do {
     let st = fr_report (report_as_server report_interval (ev_now_ms ev)) st;
     (acts, st) \<leftarrow> fr_keep_alive cfg ev st;
     Some (acts, if fr_fec_adaptive cfg then fr_adapt (ev_sec1 ev) st else st)
   }"

definition prepare_cb :: "(nat \<Rightarrow> u64) \<Rightarrow> ('a, 'd) fecraw \<Rightarrow> 'a fr_act list \<times> ('a, 'd) fecraw" where
  "prepare_cb clock st = (let (sent, dm) = delay_check clock (fr_delay st) in (map Handle sent, st\<lparr>fr_delay := dm\<rparr>))"

section \<open>Wire format\<close>

lemma fr_unwrap_cooked:
  assumes "do_cook (fr_cook cfg) mem iv (put_header h p) = Some c" "1 \<le> length iv" "length iv < 256" "length c \<le> max_data_len" "c \<noteq> []"
  shows "fr_unwrap cfg ev (Some c) = Some (h, p)"
  using de_cook_do_cook[OF assms(1-3), of "ev_mem ev"] assms(4,5) by (simp add: fr_unwrap_def)

text \<open>C7. What one side cooks the other side unwraps: a packet of the encoder with the trailer of a normal packet or
  a new connection, checksummed, obscured with an initialisation vector of 1 to 255 bytes and encrypted by the sender,
  is given to the server's decoder unchanged; the client does the same with normal packets.\<close>

theorem bridge_roundtrip:
  assumes "do_cook (fr_cook cfg) mem iv (put_header h p) = Some c" "1 \<le> length iv" "length iv < 256" "length c \<le> max_data_len" "c \<noteq> []"
  shows "(h \<in> {header_normal, header_new_connect} \<longrightarrow> server_bridge_recv_cb cfg ev (Some c) st = fr_deliver cfg ev p (st\<lparr>fr_feed_back := True\<rparr>)) \<and>
    (h = header_normal \<longrightarrow> client_bridge_recv_cb cfg ev (Some c) st = fr_deliver cfg ev p (st\<lparr>fr_feed_back := True\<rparr>))"
  using fr_unwrap_cooked[OF assms, of ev]
  by (auto simp: server_bridge_recv_cb_def client_bridge_recv_cb_def header_normal_def header_new_connect_def
      header_keep_alive_def header_reject_def)

definition plain_cook :: cook_config where
  "plain_cook = \<lparr>ck_disable_checksum = True, ck_disable_obscure = False, ck_disable_xor = False, ck_key = [7, 9]\<rparr>"

definition plain_config :: fecraw_config where
  "plain_config = \<lparr>fr_flow = \<lparr>fc_fec_par = \<lparr>fp_version = 0, fp_mtu = 1250, fp_queue_len = 200, fp_timeout = 8000, fp_mode = 0,
       fp_rs_cnt = 0, fp_rs_par = []\<rparr>, fc_disable_fec = False, fc_fix_latency = False, fc_jitter_min = 0, fc_jitter_max = 0,
       fc_output_interval_min = 0, fc_output_interval_max = 0\<rparr>,
     fr_cook = plain_cook, fr_random_drop = 0, fr_mssfix = 1250, fr_keep_reconnect = True, fr_fec_adaptive = False,
     fr_small_packet_threshold = 256, fr_small_packet_redundancy = 2, fr_enable_pacing = False\<rparr>"

lemma plain_config_simps [simp]: "fr_cook plain_config = plain_cook" "fr_small_packet_threshold plain_config = 256"
  by (simp_all add: plain_config_def)

lemma plain_do_cook:
  "do_cook plain_cook mem [5] data = Some (encrypt_loop [7, 9] 0 (obscure_loop 1 (behind [5, 1] mem) 0 data @ [5, 1]))"
  if "length data < buf_len"
  using that by (simp add: do_cook_def plain_cook_def put_crc32_def do_obscure_def encrypt_0_def Let_def)

theorem bridge_roundtrip_witness:
  "\<exists>c. do_cook plain_cook (\<lambda>_. 0) [5] (put_header header_normal [1, 2, 3]) = Some c \<and>
    (\<forall>ev (st :: (unit, unit) fecraw). client_bridge_recv_cb plain_config ev (Some c) st = fr_deliver plain_config ev [1, 2, 3] (st\<lparr>fr_feed_back := True\<rparr>))"
proof -
  let ?d = "put_header header_normal [1, 2, 3]"
  let ?c = "encrypt_loop [7, 9] 0 (obscure_loop 1 (behind [5, 1] (\<lambda>_. 0)) 0 ?d @ [5, 1])"
  have c: "do_cook plain_cook (\<lambda>_. 0) [5] ?d = Some ?c" by (rule plain_do_cook) (simp add: put_header_def)
  have l: "length ?c = 6" by (simp add: put_header_def)
  then have ne: "?c \<noteq> []" by (metis list.size(3) zero_neq_numeral)
  have "client_bridge_recv_cb plain_config ev (Some ?c) st = fr_deliver plain_config ev [1, 2, 3] (st\<lparr>fr_feed_back := True\<rparr>)"
    for ev and st :: "(unit, unit) fecraw"
    by (rule bridge_roundtrip[where iv = "[5]" and mem = "\<lambda>_. 0" and h = header_normal, THEN conjunct2, rule_format]) (use c l ne in auto)
  then show ?thesis using c by blast
qed

section \<open>Small packets and the decoder\<close>

lemma fr_deliver_small:
  assumes "fr_small_packet_threshold cfg > 0" "is_small_packet data"
  shows "\<exists>acts st'. fr_deliver cfg ev data st = Some (acts, st') \<and> set acts \<subseteq> {Tun_write (take buf_len (drop SMALL_PKT_HEADER data))} \<and>
    fr_conn st' = fr_conn st \<and> fr_delay st' = fr_delay st"
  using assms by (auto simp: fr_deliver_def Let_def sp_receive_def)

text \<open>C28. A small packet never arrives whole, at neither side: its frame is cooked without the trailer that the receiver strips, so
  the receiver takes the last byte of the payload for the kind of the packet, and the only thing it ever writes to the
  device is the payload without this byte; the client may even exit.\<close>

theorem small_packet_truncated:
  assumes "build_frame payload buf_len sp = (frame, sp')" "frame \<noteq> []" "payload \<noteq> []" "fr_small_packet_threshold cfg > 0"
    and "do_cook (fr_cook cfg) mem iv frame = Some c" "1 \<le> length iv" "length iv < 256"
  shows "(\<exists>acts st'. server_bridge_recv_cb cfg ev (Some c) st = Some (acts, st') \<and> set acts \<subseteq> {Tun_write (butlast payload)}) \<and>
    (\<exists>acts st'. client_bridge_recv_cb cfg ev (Some c) st = Some (acts, st') \<and> set acts \<subseteq> {Tun_write (butlast payload), Exit})"
proof -
  note F = build_frame_fields[OF assms(1,2)]
  have len: "length frame = 5 + length payload" using F(1,3) assms(3) by (auto simp: is_small_packet_def)
  then obtain h where h: "get_header frame = Some (h, butlast frame)" by (simp add: get_header_def butlast_conv_take)
  have small: "is_small_packet (butlast frame)"
    using F(1) len assms(3) by (cases payload) (auto simp: is_small_packet_def nth_butlast)
  have "take buf_len (drop SMALL_PKT_HEADER (butlast frame)) = butlast payload" using F(3,5) len by (simp add: drop_butlast)
  note deliver = fr_deliver_small[OF assms(4) small, of ev "st\<lparr>fr_feed_back := True\<rparr>", unfolded this]
  have "fr_unwrap cfg ev (Some c) = None \<or> fr_unwrap cfg ev (Some c) = Some (h, butlast frame)"
    using de_cook_do_cook[OF assms(5-7), of "ev_mem ev"] h by (simp add: fr_unwrap_def)
  then show ?thesis
    using deliver by (auto simp: server_bridge_recv_cb_def client_bridge_recv_cb_def split: if_splits)
qed

theorem small_packet_truncated_witness:
  "\<exists>frame sp' c. build_frame [42, 1] buf_len (sp_init 256 2) = (frame, sp') \<and> do_cook plain_cook (\<lambda>_. 0) [5] frame = Some c \<and>
    (\<forall>ev (st :: (unit, unit) fecraw). \<exists>acts st'. server_bridge_recv_cb plain_config ev (Some c) st = Some (acts, st') \<and> set acts \<subseteq> {Tun_write [42]})"
proof -
  obtain frame sp' where f: "build_frame [42, 1] buf_len (sp_init 256 2) = (frame, sp')" "frame \<noteq> []" "length frame = 7"
    by (simp add: build_frame_def sp_init_def Let_def)
  then obtain c where c: "do_cook plain_cook (\<lambda>_. 0) [5] frame = Some c" using plain_do_cook[of frame "\<lambda>_. 0"] by auto
  have "\<exists>acts st'. server_bridge_recv_cb plain_config ev (Some c) st = Some (acts, st') \<and> set acts \<subseteq> {Tun_write (butlast [42, 1])}"
    for ev and st :: "(unit, unit) fecraw"
    by (rule small_packet_truncated[OF f(1,2), where iv = "[5]" and mem = "\<lambda>_. 0", THEN conjunct1]) (use c in auto)
  then show ?thesis using c f(1) by auto
qed



section \<open>Adapting the parameters of a running encoder\<close>

lemma fec_enc_inv_par:
  assumes "fec_enc_inv ps e" "rs_wf par'" "fp_rs_cnt par' = fp_rs_cnt (fe_par e)" "fp_mode par' = fp_mode (fe_par e)"
    "fp_mtu par' = fp_mtu (fe_par e)" "fp_queue_len par' = fp_queue_len (fe_par e)"
  shows "fec_enc_inv ps (e\<lparr>fe_par := par'\<rparr>)"
  using assms unfolding fec_enc_inv_def fec_enc_held_def fec_par_ok_def by (cases "fp_mode (fe_par e) = 0") simp_all

lemma fr_measure_keeps:
  "fr_conn (fr_measure st) = fr_conn st" "af_ok (fr_adaptive (fr_measure st)) = af_ok (fr_adaptive st)"
  "data_shards (fr_adaptive (fr_measure st)) = data_shards (fr_adaptive st)" "min_parity (fr_adaptive (fr_measure st)) = min_parity (fr_adaptive st)"
  "max_parity (fr_adaptive (fr_measure st)) = max_parity (fr_adaptive st)" "parity_shards (fr_adaptive (fr_measure st)) = parity_shards (fr_adaptive st)"
  by (simp_all add: fr_measure_def Let_def record_sent_def record_loss_def af_ok_def)

text \<open>C19. Adapting the redundancy in the middle of a group is safe as long as the encoder was configured with a single
  pair \<^verbatim>\<open>d:p\<close> with \<open>d\<close> at most 127 and the controller was started with it: the encoder keeps its pending packets and its
  invariant, the group size stays, and after a change the last entry of the table is the controller's answer.\<close>

theorem fr_adapt_keeps:
  fixes now :: rat
  assumes "fec_enc_inv ps (ci_enc (fr_conn st))" "af_ok (fr_adaptive st)" "0 \<le> min_parity (fr_adaptive st)"
    and "max_parity (fr_adaptive st) \<le> data_shards (fr_adaptive st)" "1 \<le> data_shards (fr_adaptive st)" "data_shards (fr_adaptive st) \<le> 127"
    and "int (fp_rs_cnt (fe_par (ci_enc (fr_conn st)))) = data_shards (fr_adaptive st)"
  defines "st' \<equiv> fr_adapt now st"
  shows "fec_enc_inv ps (ci_enc (fr_conn st')) \<and> af_ok (fr_adaptive st') \<and>
    fp_rs_cnt (fe_par (ci_enc (fr_conn st'))) = fp_rs_cnt (fe_par (ci_enc (fr_conn st))) \<and>
    (parity_shards (fr_adaptive st') \<noteq> parity_shards (fr_adaptive st) \<longrightarrow>
      map_option (\<lambda>q. int (unat (rs_y q))) (get_tail (fe_par (ci_enc (fr_conn st')))) = Some (parity_shards (fr_adaptive st')))"
proof -
  let ?e = "ci_enc (fr_conn st)" and ?a = "fr_adaptive (fr_measure st)"
  obtain changed d p a' where adj: "af_adjust now ?a = (changed, (d, p), a')" by (metis prod.exhaust)
  have ok: "af_ok ?a" using assms(2) by (simp add: fr_measure_keeps)
  note k = af_adjust_keeps[OF ok adj]
  have len: "length (fp_rs_par (fe_par ?e)) = 265" using assms(1) by (simp add: fec_enc_inv_def fec_enc_held_def fec_par_ok_def rs_wf_def)
  have dp: "0 \<le> d" "0 \<le> p" "p \<le> 127" "d = int (fp_rs_cnt (fe_par ?e))"
    using k assms(3-7) ok by (auto simp: af_ok_def fr_measure_keeps)
  obtain par' where par': "rs_from_str (dec_str (nat d) @ '':'' @ dec_str (nat p)) (fe_par ?e) = Some par'" "rs_wf par'"
      "par' = (fe_par ?e)\<lparr>fp_rs_par := fp_rs_par par', fp_rs_cnt := nat d\<rparr>" "get_tail par' = Some (rs_entry (nat d) (nat p))"
    using af_answer_parses[OF ok _ _ _ _ adj len] assms(3-6) by (auto simp: fr_measure_keeps)
  have cnt: "fp_rs_cnt par' = fp_rs_cnt (fe_par ?e)" using arg_cong[OF par'(3), of fp_rs_cnt] dp(4) by simp
  have inv: "fec_enc_inv ps (?e\<lparr>fe_par := par'\<rparr>)"
    using arg_cong[OF par'(3), of fp_mode] arg_cong[OF par'(3), of fp_mtu] arg_cong[OF par'(3), of fp_queue_len]
    by (intro fec_enc_inv_par[OF assms(1) par'(2) cnt]) simp_all
  have st': "fr_adaptive st' = a'" "ci_enc (fr_conn st') = (if changed then ?e\<lparr>fe_par := par'\<rparr> else ?e)"
    using adj par'(1) dp(1,2) by (simp_all add: st'_def fr_adapt_def Let_def set_rs_par_def int_str_def fr_measure_keeps)
  have "uint (word_of_int p :: u8) = p" using dp(2,3) by (simp add: unsigned_of_int take_bit_int_eq_self)
  then show ?thesis
    using st' inv cnt assms(1) k(1,3,4) par'(4) dp(2) by (auto simp: rs_entry_def fr_measure_keeps)
qed

definition sample_enc2 :: fec_enc where
  "sample_enc2 = sample_enc\<lparr>fe_par := sample_par\<lparr>fp_rs_cnt := 2, fp_rs_par := rs_entry 1 2 # replicate 264 (rs_entry 2 2)\<rparr>\<rparr>"

theorem fr_adapt_keeps_witness:
  "\<forall>st0 :: (unit, unit) fecraw. let st = st0\<lparr>fr_conn := (fr_conn st0)\<lparr>ci_enc := sample_enc2\<rparr>, fr_adaptive := af_init 2 2\<rparr> in
    fec_enc_inv [] (ci_enc (fr_conn (fr_adapt 20 st)))"
proof
  fix st0 :: "(unit, unit) fecraw"
  define st where "st = st0\<lparr>fr_conn := (fr_conn st0)\<lparr>ci_enc := sample_enc2\<rparr>, fr_adaptive := af_init 2 2\<rparr>"
  have e: "fec_enc_inv [] sample_enc2"
    using sample_enc_inv by (simp add: fec_enc_inv_Nil sample_enc2_def fec_par_ok_def rs_wf_def all_less_2 rs_entry_def)
  have "fec_enc_inv [] (ci_enc (fr_conn (fr_adapt 20 st)))"
    by (rule fr_adapt_keeps[THEN conjunct1]) (use e in \<open>simp_all add: st_def af_ok_def af_init_def\<close>, simp_all add: sample_enc2_def)
  then show "let st = st0\<lparr>fr_conn := (fr_conn st0)\<lparr>ci_enc := sample_enc2\<rparr>, fr_adaptive := af_init 2 2\<rparr> in
    fec_enc_inv [] (ci_enc (fr_conn (fr_adapt 20 st)))" by (simp add: st_def Let_def)
qed

text \<open>With several pairs the controller works with the first of them, and its answer shrinks the table under the
  encoder's feet: in mode 1 the next packet then runs into the assertion on the number of pending packets.\<close>

lemma adapt_mid_group_abort:
  assumes "fp_mode (fe_par e) = 1" "get_tail (fe_par e) = Some tail" "unat (rs_x tail) \<le> fe_counter e" "fe_counter e \<noteq> 0"
  shows "fec_enc_input g_fec_par now (Some b) e = None"
  using assms by (simp add: fec_enc_input_def fec_enc_refresh_def fec_enc_accept_def Let_def)

end
