(* ===== verification/Command.thy ===== *)
theory Command
  imports Fec_Encode
begin

text \<open>
  \<^verbatim>\<open>handle_command\<close> of \<^verbatim>\<open>src/ref/UDPspeeder/misc.cpp\<close>: commands from the control pipe that change the global FEC
  parameters. The state is the pair of \<^verbatim>\<open>g_fec_par\<close> and \<^verbatim>\<open>rs_par_str\<close>. What the local variables hold before they are
  written is an argument: \<open>tmp_str\<close>, and the table \<open>junk\<close> of \<^verbatim>\<open>tmp_par\<close>. \<open>None\<close> is a failed assertion.
\<close>

type_synonym command_state = "fec_parameter \<times> string"

definition starts_with :: "string \<Rightarrow> string \<Rightarrow> bool" where
  "starts_with lit s \<longleftrightarrow> take (length lit) s = lit"

text \<open>\<^verbatim>\<open>sscanf(s, "mtu %d", &a)\<close>, with \<open>a\<close> as it was if there is no number.\<close>

definition scan_arg :: "string \<Rightarrow> string \<Rightarrow> int" where
  "scan_arg lit s = (case scan_int (drop (length lit) s) of Some (v, _) \<Rightarrow> v | None \<Rightarrow> -1)"

text \<open>\<^verbatim>\<open>sscanf(s, "fec %s", tmp_str)\<close>.\<close>

definition scan_word :: "string \<Rightarrow> string \<Rightarrow> string \<Rightarrow> string" where
  "scan_word lit s tmp_str =
    (let w = takeWhile (\<lambda>c. \<not> is_space c) (dropWhile is_space (drop (length lit) s)) in if w = [] then tmp_str else w)"

text \<open>The loop that removes line ends tests the same character again and so removes one.\<close>

definition strip_newline :: "string \<Rightarrow> string" where
  "strip_newline s = (if s \<noteq> [] \<and> last s = CHR 10 then butlast s else s)"

definition new_fec_parameter :: "rs_parameter list \<Rightarrow> fec_parameter" where
  "new_fec_parameter junk = \<lparr>fp_version = 0, fp_mtu = 1250, fp_queue_len = 200, fp_timeout = 8 * 1000, fp_mode = 0, fp_rs_cnt = 0, fp_rs_par = junk\<rparr>"

definition cmd_fec :: "string \<Rightarrow> rs_parameter list \<Rightarrow> string \<Rightarrow> command_state \<Rightarrow> (int \<times> command_state) option" where
  "cmd_fec tmp_str junk s st = (case st of (g, rs_par_str) \<Rightarrow>
     let w = scan_word ''fec'' s tmp_str in
     (case rs_from_str w (new_fec_parameter junk) of None \<Rightarrow> Some (-1, st)
      | Some tmp_par \<Rightarrow> map_option (\<lambda>g'. (0, g'\<lparr>fp_version := fp_version g + 1\<rparr>, w)) (copy_fec tmp_par g)))"

definition cmd_mode :: "string \<Rightarrow> command_state \<Rightarrow> (int \<times> command_state) option" where
  "cmd_mode s st = (case st of (g, rs_par_str) \<Rightarrow>
     let a = scan_arg ''mode'' s in
     if a \<noteq> 0 \<and> a \<noteq> 1 then Some (-1, st)
     else if int (fp_mode g) \<noteq> a
     then map_option (\<lambda>g'. (0, g'\<lparr>fp_version := fp_version g' + 1\<rparr>, rs_par_str)) (rs_from_str rs_par_str (g\<lparr>fp_mode := nat a\<rparr>))
     else Some (0, st))"

definition dispatch_command :: "string \<Rightarrow> rs_parameter list \<Rightarrow> string \<Rightarrow> command_state \<Rightarrow> (int \<times> command_state) option" where
  "dispatch_command tmp_str junk s st = (case st of (g, rs_par_str) \<Rightarrow>
     if starts_with ''fec'' s then cmd_fec tmp_str junk s st
     else if starts_with ''mtu'' s then
       (let a = scan_arg ''mtu'' s in if a < 100 \<or> a > 2000 then Some (-1, st) else Some (0, g\<lparr>fp_mtu := nat a\<rparr>, rs_par_str))
     else if starts_with ''queue-len'' s then
       (let a = scan_arg ''queue-len'' s in if a < 1 \<or> a > 10000 then Some (-1, st) else Some (0, g\<lparr>fp_queue_len := nat a\<rparr>, rs_par_str))
     else if starts_with ''mode'' s then cmd_mode s st
     else if starts_with ''timeout'' s then
       (let a = scan_arg ''timeout'' s in if a < 0 \<or> a > 1000 then Some (-1, st) else Some (0, g\<lparr>fp_timeout := nat (a * 1000)\<rparr>, rs_par_str))
     else Some (0, st))"

text \<open>\<^verbatim>\<open>print_parameter\<close> at the end prints the table, which asserts that there is one.\<close>

definition handle_command :: "string \<Rightarrow> rs_parameter list \<Rightarrow> string \<Rightarrow> command_state \<Rightarrow> (int \<times> command_state) option" where
  "handle_command tmp_str junk s st = do {
     (r, st') \<leftarrow> dispatch_command tmp_str junk (strip_newline s) st;
     if r = 0 then do { _ \<leftarrow> rs_to_str (fst st'); Some (r, st') } else Some (r, st')
   }"

section \<open>Commands keep the parameters usable\<close>

text \<open>The remembered string is one the parser accepts.\<close>

definition command_ok :: "command_state \<Rightarrow> bool" where
  "command_ok st \<longleftrightarrow> fec_par_ok (fst st) \<and> rs_from_str (snd st) (fst st) \<noteq> None"

lemma rs_from_str_any: "rs_from_str s p \<noteq> None \<longleftrightarrow> rs_from_str s q \<noteq> None"
  by (auto simp: rs_from_str_def Let_def split: option.splits)

lemma rs_from_str_frame:
  "rs_from_str s p = Some p' \<Longrightarrow> fp_mode p' = fp_mode p \<and> fp_mtu p' = fp_mtu p \<and> fp_queue_len p' = fp_queue_len p \<and>
     fp_version p' = fp_version p"
  by (auto simp: rs_from_str_def Let_def split: option.splits if_splits)

lemma command_okI: "fec_par_ok g \<Longrightarrow> rs_from_str s q \<noteq> None \<Longrightarrow> command_ok (g, s)"
  using rs_from_str_any[of s q g] by (simp add: command_ok_def)

lemma cmd_fec_ok:
  assumes "command_ok st" "length junk = 265"
  shows "\<exists>r st'. cmd_fec tmp_str junk s st = Some (r, st') \<and> r \<in> {0, -1} \<and> command_ok st' \<and> (r = -1 \<longrightarrow> st' = st)"
proof -
  obtain g str where st: "st = (g, str)" by fastforce
  let ?w = "scan_word ''fec'' s tmp_str"
  have g: "fec_par_ok g" "length (fp_rs_par g) = 265" using assms(1) st by (auto simp: command_ok_def fec_par_ok_def rs_wf_def)
  show ?thesis
  proof (cases "rs_from_str ?w (new_fec_parameter junk)")
    case None
    then show ?thesis using assms(1) st by (simp add: cmd_fec_def Let_def)
  next
    case (Some par)
    have "rs_wf par" using assms(2) by (intro rs_from_str_wf[OF _ Some]) (simp add: new_fec_parameter_def)
    from copy_fec_wf[OF this g(2)] obtain g' where g': "copy_fec par g = Some g'" "rs_wf g'" by blast
    have "fp_mode g' = fp_mode g" "fp_mtu g' = fp_mtu g" "fp_queue_len g' = fp_queue_len g"
      using g'(1) by (auto simp: copy_fec_def split: if_splits)
    then have "fec_par_ok (g'\<lparr>fp_version := v\<rparr>)" for v using g(1) g'(2) by (simp add: fec_par_ok_def rs_wf_def)
    then show ?thesis
      using g'(1) Some st command_okI[of _ ?w "new_fec_parameter junk"] by (simp add: cmd_fec_def Let_def)
  qed
qed

lemma cmd_mode_ok:
  assumes "command_ok st"
  shows "\<exists>r st'. cmd_mode s st = Some (r, st') \<and> r \<in> {0, -1} \<and> command_ok st' \<and> (r = -1 \<longrightarrow> st' = st)"
proof -
  obtain g str where st: "st = (g, str)" by fastforce
  let ?a = "scan_arg ''mode'' s"
  have g: "fec_par_ok g" "length (fp_rs_par g) = 265" using assms(1) st by (auto simp: command_ok_def fec_par_ok_def rs_wf_def)
  show ?thesis
  proof (cases "(?a = 0 \<or> ?a = 1) \<and> int (fp_mode g) \<noteq> ?a")
    case True
    let ?g = "g\<lparr>fp_mode := nat ?a\<rparr>"
    obtain g' where g': "rs_from_str str ?g = Some g'"
      using assms st rs_from_str_any[of str g ?g] by (auto simp: command_ok_def)
    have "rs_wf g'" using g(2) by (intro rs_from_str_wf[OF _ g']) simp
    then have "fec_par_ok (g'\<lparr>fp_version := v\<rparr>)" for v
      using g(1) rs_from_str_frame[OF g'] True by (auto simp: fec_par_ok_def rs_wf_def)
    then show ?thesis using True st g' command_okI[of _ str ?g] by (auto simp: cmd_mode_def Let_def)
  qed (use assms st in \<open>auto simp: cmd_mode_def Let_def\<close>)
qed


text \<open>Only \<^verbatim>\<open>fec\<close> and \<^verbatim>\<open>mode\<close> count the version up, and an encoder copies the parameters only when the version differs:
  a new MTU, queue length or timeout does not reach an encoder.\<close>

lemma mtu_command_not_applied:
  assumes "handle_command tmp_str junk (''mtu'' @ rest) (g, str) = Some (0, (g', str'))" "fp_version (fe_par e) = fp_version g"
  shows "fec_enc_refresh g' e = Some e"
proof -
  have "fp_version g' = fp_version g"
    using assms(1) by (auto simp: handle_command_def dispatch_command_def Let_def starts_with_def strip_newline_def bind_eq_Some_conv split: if_splits)
  then show ?thesis using assms(2) by (simp add: fec_enc_refresh_def)
qed


end
