(* ===== verification/Spec2Isabelle.thy ===== *)
theory Spec2Isabelle
  imports Fecraw Command Crc32_Equiv
begin

text \<open>
  fecraw is a VPN over lossy links. It is put together from three programs under \<^verbatim>\<open>src/ref\<close>: UDPspeeder (forward error
  correction), tinyfecVPN (the tunnel device) and udp2raw (the raw transport), with the glue and three new features under
  \<^verbatim>\<open>src\<close>. A packet of the tunnel device goes through the MSS fix, the pacer, the small-packet bypass or the FEC encoder,
  gets a one-byte trailer, is cooked (checksum, random padding, XOR) and sent over a bridge to the raw transport; on the
  other side the steps are undone in reverse order. This development models that packet engine and proves it correct.

  \<^bold>\<open>Layers, theories and files.\<close>
  \<^item> \<open>Prelude\<close>: collections of lemmas, byte and word types, folds over option, the assertion \<open>check\<close>.
  \<^item> The codec, \<^verbatim>\<open>src/ref/UDPspeeder/lib/fec.cpp\<close> and \<^verbatim>\<open>rs.cpp\<close>: \<open>GF256\<close> (tables, made an instance of the class of
    fields), \<open>Linear\<close> (matrices over a field), \<open>Fec_Matrix\<close> (\<^verbatim>\<open>invert_mat\<close>, \<^verbatim>\<open>invert_vdm\<close>), \<open>Fec_Codec\<close> (\<^verbatim>\<open>fec_new\<close>,
    \<^verbatim>\<open>fec_encode\<close>, \<^verbatim>\<open>fec_decode\<close>, the \<^verbatim>\<open>rs_*\<close> wrappers).
  \<^item> The FEC layer, \<^verbatim>\<open>src/ref/UDPspeeder/fec_manager.h\<close> and \<^verbatim>\<open>.cpp\<close>: \<open>Blob\<close> (packing packets into shards), \<open>Double\<close> (rounding
    to 53 bits), \<open>Fec_Param\<close> (parameters, their parser and printer), \<open>Fec_Replay\<close> (\<^verbatim>\<open>anti_replay_t\<close>), \<open>Fec_Encode\<close> and
    \<open>Fec_Decode\<close> (the two managers), \<open>Fec_Link\<close> (both together).
  \<^item> Utilities of UDPspeeder: \<open>Bytes\<close> (\<^verbatim>\<open>common.cpp\<close>: byte order, clock, checksums, string splitting), \<open>Crc32_Table\<close>,
    \<open>Crc32\<close>, \<open>Crc32_Equiv\<close> (\<^verbatim>\<open>crc32/Crc32.cpp\<close>), \<open>Packet\<close> (\<^verbatim>\<open>packet.cpp\<close>), \<open>Lru\<close> (\<^verbatim>\<open>lru_collector_t\<close>), \<open>Conv_Manager\<close>
    (\<^verbatim>\<open>connection.h\<close>), \<open>Fd_Manager\<close> (\<^verbatim>\<open>fd_manager.cpp\<close>), \<open>Delay_Manager\<close> (\<^verbatim>\<open>delay_manager.cpp\<close>), \<open>Flow\<close> (\<^verbatim>\<open>misc.cpp\<close>:
    the two data paths), \<open>Command\<close> (\<^verbatim>\<open>misc.cpp\<close>: the control pipe).
  \<^item> \<open>Tun\<close> (\<^verbatim>\<open>src/ref/tinyfecVPN/tun_dev.cpp\<close>): trailer, data paths of the VPN, \<^verbatim>\<open>do_mssfix\<close>, keep-alive.
  \<^item> fecraw itself: \<open>Adaptive\<close>, \<open>Small_Packet\<close>, \<open>Pacing\<close> (the headers of these names under \<^verbatim>\<open>src\<close>) and \<open>Fecraw\<close> (the
    callbacks of \<^verbatim>\<open>fecraw_client.cpp\<close> and \<^verbatim>\<open>fecraw_server.cpp\<close>).

  \<^bold>\<open>How the code is represented.\<close> A struct is a record and an operation a function from the state to the result and the
  new state. An assertion of the code is \<open>check\<close>, and \<open>None\<close> is an aborted process; the error codes 0 and -1 are kept.
  Bytes and the 16, 32 and 64-bit integers are words; \<^verbatim>\<open>int\<close> values that stay small are \<open>nat\<close> or \<open>int\<close>. Memory that the code
  reads before writing it, the clock, random numbers and the values of \<^verbatim>\<open>operator[]\<close> for missing keys are arguments.
  Arithmetic on \<^verbatim>\<open>double\<close> is exact arithmetic on rationals followed by \<open>f64\<close>, rounding to 53 significant bits to nearest.
  Sends, writes and sleeps are returned as lists. Loops are recursive functions with their termination proofs; none needs fuel.
  Descriptors of \<open>Lru\<close> nodes stand for the iterators of the list; the interface \<open>recency\<close> of that theory is what
  \<open>Conv_Manager\<close> relies on.

  \<^bold>\<open>Bounds.\<close> The descriptors of the codec are kept in a block of 256 x 256 pointers, \<open>ct_table\<close>, with the cell
  \<open>k * 256 + n\<close> for a pair; \<open>get_code\<close> is \<open>None\<close> outside the block, so the theorems on the codec are about groups of at most
  255 packets. A buffer of the code has the length the code gives it: writes behind it, failed assertions and \<^verbatim>\<open>myexit\<close> are
  \<open>None\<close> as well. Counters keep their width, and where a theorem needs that one does not wrap its hypotheses say so.

  \<^bold>\<open>What is shown.\<close>
  \<^item> Codec: the tables are the field with 256 elements, \<^verbatim>\<open>invert_mat\<close> decides invertibility, and any \<open>k\<close> of \<open>n\<close> packets give the
    data back to a receiver with descriptors of its own.
  \<^item> FEC layer: the encoder is a queue that never aborts and chooses an optimal group size; encoder and decoder together
    deliver what was put in; a delivered group is not delivered again; parameters are parsed, printed and interpolated exactly.
  \<^item> Utilities: the variants of CRC-32 agree with the bitwise definition, checksums combine, and bursts of four bytes are
    detected; the managers keep their maps consistent, their names unique and their order in time; no command aborts.
  \<^item> VPN and fecraw: the MSS fix leaves valid packets; what one side cooks the other unwraps; the controllers stay within
    their bounds and converge; redundant small packets are delivered once; adapting the redundancy keeps the encoder usable.
  \<^item> Theorems of kind error show what goes wrong in the code as it is: groups of 255 packets, truncated small packets,
    sequence numbers taken for the marker, the round-trip probe that is not entered. The lemmas \<open>get_code_256\<close>,
    \<open>de_obscure_overrun\<close>, \<open>mtu_command_not_applied\<close> and \<open>adapt_mid_group_abort\<close> record further ones.

  \<^bold>\<open>Not modelled.\<close> Command lines, sockets, threads, signal handlers, logging and the event library are system calls or
  third-party code. The callbacks of the stand-alone tunnels (\<^verbatim>\<open>tunnel_client.cpp\<close>, \<^verbatim>\<open>tun_dev_client.cpp\<close> and their servers)
  are replaced in fecraw by its own. The raw transport \<^verbatim>\<open>src/ref/udp2raw\<close> (ciphers, digests, raw packets, handshake) is not
  modelled: for fecraw it is the other end of the bridge, and what it does to a datagram is a parameter, the packet that
  arrives. NRUP is a Go library that the program does not contain.
\<close>

section \<open>The Reed-Solomon codec\<close>

text \<open>C1. Any \<open>k\<close> of the \<open>n\<close> packets that \<^verbatim>\<open>rs_encode2\<close> produces are enough, for every group of at most 255 packets, the limit of
  the table of descriptors: encoding succeeds and leaves the data in the first \<open>k\<close> packets; and a receiver with a table of
  descriptors of its own, empty or filled by other groups, gets from \<^verbatim>\<open>rs_decode2\<close> the return value 0 and the original data in the first \<open>k\<close> slots, whichever packets of the
  group are lost, as long as at least \<open>k\<close> arrive. As many slots are not null as packets arrived.\<close>

theorem rs_any_k_of_n:
  assumes "0 < k" "k \<le> n" "n \<le> 255" "code_table_ok ct" "length data = n" "\<forall>j<n. length (data ! j) = sz"
  shows "\<exists>enc ct'. rs_encode2 k n data sz ct = (Some enc, ct') \<and> code_table_ok ct' \<and> length enc = n \<and> (\<forall>j<k. enc ! j = data ! j) \<and>
    (\<forall>recv rct. code_table_ok rct \<and> length recv = n \<and> (\<forall>i<n. recv ! i = None \<or> recv ! i = Some (enc ! i)) \<and> k \<le> card {i. i < n \<and> recv ! i \<noteq> None} \<longrightarrow>
      (\<exists>out rct'. rs_decode2 k n recv sz rct = (Some (0, out), rct') \<and> code_table_ok rct' \<and> length out = n \<and>
        (\<forall>j<k. out ! j = Some (data ! j)) \<and> card {i. i < n \<and> out ! i \<noteq> None} = card {i. i < n \<and> recv ! i \<noteq> None}))"
proof -
  have n: "n < 256" "n \<le> 256" using assms(3) by simp_all
  obtain code where code: "fec_new k n = Some code" using assms(1-3) by (simp add: fec_new_def Let_def)
  obtain ct' where e: "rs_encode2 k n data sz ct = (Some (rs_encode code data sz), ct')" "code_table_ok ct'"
    using rs_code2(1)[OF assms(4,1,2) n(1) code] by blast
  have enc: "rs_encode code data sz = map (codeword code data sz) [0..<n]"
    using assms by (intro rs_encode_codewords[OF assms(1,2) n(2) code]) auto
  have top: "rs_encode code data sz ! j = data ! j" if j: "j < k" for j
  proof -
    have "j < n" "length (data ! j) = sz" using j assms(2,6) by auto
    then show ?thesis using codeword_data[OF assms(1,2) n(2) code j, of data] by (simp add: enc)
  qed
  have dec: "\<exists>out rct'. rs_decode2 k n recv sz rct = (Some (0, out), rct') \<and> code_table_ok rct' \<and> length out = n \<and>
      (\<forall>j<k. out ! j = Some (data ! j)) \<and> length (rs_received out n) = length (rs_received recv n)"
    if "code_table_ok rct" "length recv = n" "\<forall>i<n. recv ! i = None \<or> recv ! i = Some (rs_encode code data sz ! i)" "k \<le> length (rs_received recv n)" for recv rct
  proof -
    have "\<exists>out. rs_decode code recv sz = Some (0, out) \<and> length out = n \<and>
      (\<forall>j<k. out ! j = Some (data ! j)) \<and> length (rs_received out n) = length (rs_received recv n)"
      using that assms unfolding enc by (intro rs_decode_recovers[OF assms(1,2) n(2) code]) auto
    then show ?thesis using rs_code2(2)[OF that(1) assms(1,2) n(1) code, of recv sz] by auto
  qed
  show ?thesis
    using e top dec assms(5) by (intro exI[of _ "rs_encode code data sz"] exI[of _ ct']) (simp add: enc length_rs_received)
qed

theorem rs_any_k_of_n_witness:
  "\<exists>enc ct'. rs_encode2 2 3 [[1, 2], [3, 4], [0, 0]] 2 code_table_new = (Some enc, ct') \<and>
    (\<exists>out rct'. rs_decode2 2 3 [None, Some (enc ! 1), Some (enc ! 2)] 2 code_table_new = (Some (0, out), rct') \<and>
      out ! 0 = Some [1, 2] \<and> out ! 1 = Some [3, 4])"
proof -
  have three: "{i. i < 3 \<and> [None, Some a, Some b] ! i \<noteq> None} = {1, 2 :: nat}" for a b :: bytes
    by (auto simp: less_Suc_eq numeral_3_eq_3 numeral_2_eq_2)
  have "\<forall>j<3. length ([[1, 2], [3, 4], [0, 0]] ! j :: bytes) = 2" by (simp add: all_less_3)
  then obtain enc ct' where e: "rs_encode2 2 3 [[1, 2], [3, 4], [0, 0]] 2 code_table_new = (Some enc, ct')" and
    d: "\<forall>recv rct. code_table_ok rct \<and> length recv = 3 \<and> (\<forall>i<3. recv ! i = None \<or> recv ! i = Some (enc ! i)) \<and> 2 \<le> card {i. i < 3 \<and> recv ! i \<noteq> None} \<longrightarrow>
      (\<exists>out rct'. rs_decode2 2 3 recv 2 rct = (Some (0, out), rct') \<and> code_table_ok rct' \<and> length out = 3 \<and>
        (\<forall>j<2. out ! j = Some ([[1, 2], [3, 4], [0, 0]] ! j)) \<and> card {i. i < 3 \<and> out ! i \<noteq> None} = card {i. i < 3 \<and> recv ! i \<noteq> None})"
    using rs_any_k_of_n[of 2 3 code_table_new "[[1, 2], [3, 4], [0, 0]]" 2] code_table_empty by (elim exE conjE meta_impE) simp_all
  have "\<exists>out rct'. rs_decode2 2 3 [None, Some (enc ! 1), Some (enc ! 2)] 2 code_table_new = (Some (0, out), rct') \<and>
      (\<forall>j<2. out ! j = Some ([[1, 2], [3, 4], [0, 0]] ! j))"
    using d[rule_format, of code_table_new "[None, Some (enc ! 1), Some (enc ! 2)]"] code_table_empty
    unfolding three by (auto simp: all_less_3)
  then show ?thesis using e by (auto simp: all_less_2)
qed

text \<open>C10. The table-driven multiplication of the codec, built by \<^verbatim>\<open>generate_gf\<close> and \<^verbatim>\<open>init_mul_table\<close>, is multiplication of
  polynomials over two elements modulo the primitive polynomial, and the inverse table holds the inverses.\<close>

theorem gf_mul_polynomial:
  "gf_mul x y = gf_poly_mul x y \<and> gf_mul (gf_inv x) x = (if x = 0 then 0 else 1)"
proof -
  have "gf_mul x y = gf_poly_mul x y"
    using gf_poly_mul_fold[of x y "[0..<8]" 0] byte_split[of y] by (simp add: gf_poly_mul_def)
  then show ?thesis by (simp add: gf_mul_inv)
qed

text \<open>C9. \<^verbatim>\<open>invert_mat\<close> decides whether a square matrix over the field is invertible, and if so replaces it by its
  inverse: Gauss-Jordan with the pivot search and the final exchange of columns of the code.\<close>

theorem invert_mat_correct:
  assumes "length src = k * k"
  shows "case invert_mat src k of None \<Rightarrow> \<not> lin_inj k (mat k src)
    | Some m \<Rightarrow> lin_inj k (mat k src) \<and> length m = k * k \<and> (\<forall>x. \<forall>i<k. lin k (mat k m) (lin k (mat k src) x) i = x i)"
proof (cases "invert_mat src k")
  case None
  then show ?thesis using invert_mat_complete[OF assms] by auto
next
  case (Some m)
  note s = invert_mat_sound[OF assms Some]
  have "lin k (mat k m) (\<lambda>_. 0) i = 0" for i by (simp add: lin_def)
  moreover have "lin k (mat k m) y i = lin k (mat k m) z i" if "\<forall>i<k. y i = z i" for y z i using that by (simp add: lin_def)
  ultimately have "lin_inj k (mat k src)" using s unfolding lin_inj_def by metis
  then show ?thesis using s Some by simp
qed


theorem invert_mat_correct_witness:
  "case invert_mat [1, 2, 0, 1] 2 of None \<Rightarrow> \<not> lin_inj 2 (mat 2 [1, 2, 0, 1])
    | Some m \<Rightarrow> lin_inj 2 (mat 2 [1, 2, 0, 1]) \<and> length m = 2 * 2 \<and>
      (\<forall>x. \<forall>i<2. lin 2 (mat 2 m) (lin 2 (mat 2 [1, 2, 0, 1]) x) i = x i)"
  by (rule invert_mat_correct) simp

section \<open>The FEC layer\<close>

text \<open>C2. Sender and receiver together, mode 0: when a call of the encoder emits a group of fewer than 255 packets, the group
  stands for the oldest packets \<open>qs\<close> that were waiting, in their order, and the rest keeps waiting; and a decoder that
  knows nothing of the group and gets as many different packets of it as there are data packets, in any order, mixed
  with at most as much other traffic as its ring has slots, hands out exactly \<open>qs\<close> with the last of them.\<close>

theorem link_delivers_blob:
  assumes "fec_enc_inv ps e" "\<not> fe_ready e" "fec_par_ok g" "\<And>p. s = Some p \<Longrightarrow> length p \<le> Blob.max_data_len"
    and "fec_enc_input g now s e = Some (r, e')" "fe_ready e'" "fp_mode (fe_par e') = 0" "length (fe_output e') < 255"
  shows "\<exists>qs rs. qs @ rs = ps @ (case s of None \<Rightarrow> [] | Some p \<Rightarrow> [p]) \<and> qs \<noteq> [] \<and> fec_enc_inv rs e' \<and>
    (\<forall>d evs d' t now' stale. collects (fe_seq e) (fe_output e') evs d d' \<and> t \<in> set (fe_output e') \<and> t \<notin> set (map dg_data evs) \<longrightarrow>
      (\<exists>d''. fec_dec_step now' stale t d' = Some (Some (int (length qs), qs), d'')))"
proof -
  have "\<exists>r e'. fec_enc_input g now s e = Some (r, e') \<and> fec_enc_queue ps (fe_seq e) s r e'"
    by (rule fec_enc_input_queue[OF assms(1-3)]) (rule assms(4))
  then have "fec_enc_queue ps (fe_seq e) s r e'" using assms(5) by simp
  then obtain qs rs where qs: "qs @ rs = ps @ (case s of None \<Rightarrow> [] | Some p \<Rightarrow> [p])" "fec_enc_inv rs e'" "qs \<noteq> []"
      "fec_emits 0 (fe_seq e) s qs (fe_output e')"
    using assms(6,7) by (auto simp: fec_enc_queue_def fec_keeps_def split: if_splits)
  then obtain x y len where grp: "fec_blob_group (fe_seq e) x y len qs (fe_output e')" by (auto simp: fec_emits_def)
  then have "x + y < 255" using assms(8) by (auto simp: fec_blob_group_def)
  then show ?thesis using qs collects_deliver[OF grp] by (intro exI[of _ qs] exI[of _ rs]) blast
qed

lemma sample_enc_emits:
  "\<exists>e'. fec_enc_input sample_par 0 (Some [1, 2, 3]) sample_enc = Some (0, e') \<and> fe_ready e' \<and> fp_mode (fe_par e') = 0 \<and>
     length (fe_output e') = 2 \<and> group_data_num (fe_output e') = 1"
  by (simp add: fec_enc_input_def fec_enc_refresh_def fec_enc_accept_def sample_enc_def Let_def sample_par_def get_tail_def rs_entry_def
    get_shard_len_next_def round_up_div_def fec_enc_append_def blob_encode_input_def fec_enc_emit_def fec_enc_group_def
    fec_enc_shards_def short_packet_optimize_def fec_best_data_num_def blob_encode_output_def blob_buf_size_def get_shard_len_def
    rs_encode2_def get_code_def code_table_new_def fec_new_def fec_enc_packet_def encode_fast_send_def group_data_num_def fec_header_def nth_append)


theorem link_delivers_blob_witness:
  "\<exists>e'. fec_enc_input sample_par 0 (Some [1, 2, 3]) sample_enc = Some (0, e') \<and>
     (\<exists>d''. fec_dec_step 0 (\<lambda>_. []) (fe_output e' ! 1) sample_dec = Some (Some (1, [[1, 2, 3]]), d''))"
proof -
  obtain e' where e': "fec_enc_input sample_par 0 (Some [1, 2, 3]) sample_enc = Some (0, e')" "fe_ready e'" "fp_mode (fe_par e') = 0"
      "length (fe_output e') = 2" "group_data_num (fe_output e') = 1"
    using sample_enc_emits by blast
  have "collects (fe_seq sample_enc) (fe_output e') [] sample_dec sample_dec"
    using sample_dec_fresh sample_dec_num e'(5) by (simp add: collects_def)
  moreover have "fe_output e' ! 1 \<in> set (fe_output e')" using e'(4) by simp
  moreover obtain qs rs where qs: "qs @ rs = [[1, 2, 3]]" "qs \<noteq> []" and
      "\<forall>d evs d' t now' stale. collects (fe_seq sample_enc) (fe_output e') evs d d' \<and> t \<in> set (fe_output e') \<and> t \<notin> set (map dg_data evs) \<longrightarrow>
        (\<exists>d''. fec_dec_step now' stale t d' = Some (Some (int (length qs), qs), d''))"
    using link_delivers_blob[OF sample_enc_inv(1,2) sample_par_ok _ e'(1-3)] e'(4) by auto
  ultimately have "\<exists>d''. fec_dec_step 0 (\<lambda>_. []) (fe_output e' ! 1) sample_dec = Some (Some (int (length qs), qs), d'')" by force
  moreover have "qs = [[1, 2, 3]]" using qs by (auto simp: append_eq_Cons_conv)
  ultimately show ?thesis using e'(1) by simp
qed

text \<open>C3. The encoder is a queue: from any reachable state, for every packet or timeout, \<^verbatim>\<open>input\<close> never fails an assertion; the
  packets held before and the new one are, in this order, those of the group that is emitted and those held afterwards,
  and the invariant holds again. An input is refused only when nothing is waiting.\<close>

theorem encoder_contract:
  assumes "fec_enc_inv ps e" "\<not> fe_ready e" "fec_par_ok g" "\<And>p. s = Some p \<Longrightarrow> length p \<le> Blob.max_data_len"
  shows "\<exists>r e'. fec_enc_input g now s e = Some (r, e') \<and> fec_enc_queue ps (fe_seq e) s r e'"
  by (rule fec_enc_input_queue[OF assms])

theorem encoder_contract_witness:
  "\<exists>r e'. fec_enc_input sample_par 5 (Some [1, 2, 3]) sample_enc = Some (r, e') \<and> fec_enc_queue [] (fe_seq sample_enc) (Some [1, 2, 3]) r e'"
  by (rule encoder_contract[OF sample_enc_inv(1,2) sample_par_ok]) simp



text \<open>C5. The table of redundancies is the reference interpolation of the configured points: what \<^verbatim>\<open>rs_from_str\<close> computes in
  floating point for every group size is the exact piecewise linear interpolation, rounded up and cut at 255 packets.\<close>

theorem rs_table_interpolates:
  assumes "length (fp_rs_par p) = 265" "rs_from_str s p = Some p'"
  shows "\<exists>ps. rs_parse (string_to_vec s '','') = Some ps \<and> rs_valid ps \<and> rs_ascending ps \<and> fp_rs_cnt p' = fst (last ps) \<and>
    (\<forall>i < fp_rs_cnt p'. fp_rs_par p' ! i = rs_entry (i + 1) (rs_reference ps (i + 1)))"
  by (rule rs_from_str_table[OF assms]) blast


theorem rs_table_interpolates_witness:
  "\<exists>p'. rs_from_str ''1:1'' sample_par = Some p' \<and> (\<exists>ps. rs_parse (string_to_vec ''1:1'' '','') = Some ps \<and> fp_rs_cnt p' = fst (last ps) \<and>
    (\<forall>i < fp_rs_cnt p'. fp_rs_par p' ! i = rs_entry (i + 1) (rs_reference ps (i + 1))))"
proof -
  have "rs_from_str ''1:1'' sample_par \<noteq> None"
    by (simp add: rs_from_str_def string_to_vec.simps Let_def scan_pair_def scan_int_def is_digit_def is_space_def digits_val_def to_int32_def)
  then obtain p' where p': "rs_from_str ''1:1'' sample_par = Some p'" by blast
  moreover have "length (fp_rs_par sample_par) = 265" by (simp add: sample_par_def)
  ultimately show ?thesis using rs_table_interpolates[of sample_par] by blast
qed

text \<open>C4. A group that was delivered is not delivered again: once its number is marked, it is refused for 120 seconds, however
  many other groups, up to the size of the ring, are marked in between; no assertion fails on the way.\<close>

theorem replay_rejected:
  assumes "ar_inv r" "ar_is_vaild t seq r = (True, r1)" "ar_set_invaild t seq r = Some r2"
    and "length ops < anti_replay_buff_size" "\<forall>(now, s) \<in> set ops. now - t \<le> anti_replay_timeout" "now - t \<le> anti_replay_timeout"
  shows "\<exists>r3. ar_run ops r2 = Some r3 \<and> ar_is_vaild now seq r3 = (False, r3)"
proof -
  obtain i where "ar_marked seq t i 0 r2" using ar_set_invaild_marks[OF assms(1-3)] by blast
  from ar_run_marked[OF this _ assms(5)] assms(4) show ?thesis using ar_marked_invalid[OF _ assms(6)] by auto
qed

theorem replay_rejected_witness:
  "\<exists>r2 r3. ar_set_invaild 10 7 ar_clear = Some r2 \<and> ar_run [(11, 8), (12, 9)] r2 = Some r3 \<and> ar_is_vaild 13 7 r3 = (False, r3)"
proof -
  have v: "ar_is_vaild 10 7 ar_clear = (True, ar_clear)" by (simp add: ar_is_vaild_def ar_clear_def)
  obtain r2 where r2: "ar_set_invaild 10 7 ar_clear = Some r2" using ar_set_invaild_inv[OF ar_inv_clear] by blast
  have "\<exists>r3. ar_run [(11, 8), (12, 9)] r2 = Some r3 \<and> ar_is_vaild 13 7 r3 = (False, r3)"
    by (rule replay_rejected[OF ar_inv_clear v r2]) (simp_all add: anti_replay_buff_size_def anti_replay_timeout_def word_le_nat_alt)
  then show ?thesis using r2 by blast
qed




section \<open>Checksums\<close>



end
